theory Spec2Isabelle
  imports Complex_Main "HOL-Library.Word" "HOL-Library.Multiset"
begin

section \<open>Python values\<close>

text \<open>
  A Python \<open>str\<close> is a sequence of Unicode code points and is modelled as a list of
  natural numbers; \<open>bytes\<close> is a list of 8-bit words. A Python \<open>float\<close> that is
  neither NaN nor infinite is a rational number, and is modelled by that number; the
  float literals of the source are given their exact binary64 value where a comparison
  depends on it, and the division that produces a similarity score rounds to binary64.
\<close>

type_synonym pystr = "nat list"
type_synonym bytes = "8 word list"

definition ascii :: "string \<Rightarrow> pystr" where
  "ascii s = map of_char s"

text \<open>An exception is a value; \<open>str_of_error\<close> is Python's \<open>str(e)\<close>.\<close>

datatype error =
    AttributeError pystr
  | UnicodeDecodeError pystr
  | ExternalError pystr

fun str_of_error :: "error \<Rightarrow> pystr" where
  "str_of_error (AttributeError m) = m"
| "str_of_error (UnicodeDecodeError m) = m"
| "str_of_error (ExternalError m) = m"

text \<open>
  \<open>str.isspace\<close> for one character: the code points Python 3 treats as whitespace
  in \<open>str.strip()\<close> and \<open>str.split()\<close>.
\<close>

definition isspace :: "nat \<Rightarrow> bool" where
  "isspace c \<longleftrightarrow>
     (9 \<le> c \<and> c \<le> 13) \<or> (28 \<le> c \<and> c \<le> 32) \<or> c = 133 \<or> c = 160 \<or> c = 5760 \<or>
     (8192 \<le> c \<and> c \<le> 8202) \<or> c = 8232 \<or> c = 8233 \<or> c = 8239 \<or> c = 8287 \<or> c = 12288"

definition strip :: "pystr \<Rightarrow> pystr" where
  "strip s = rev (dropWhile isspace (rev (dropWhile isspace s)))"

text \<open>\<open>str.split()\<close> with no argument: the maximal runs of non-whitespace.\<close>

fun split_ws :: "pystr \<Rightarrow> pystr \<Rightarrow> pystr list" where
  "split_ws cur [] = (if cur = [] then [] else [cur])"
| "split_ws cur (c # cs) =
     (if isspace c then (if cur = [] then split_ws [] cs else cur # split_ws [] cs)
      else split_ws (cur @ [c]) cs)"

definition split :: "pystr \<Rightarrow> pystr list" where
  "split s = split_ws [] s"

text \<open>\<open>sep.join(parts)\<close>.\<close>

fun join :: "pystr \<Rightarrow> pystr list \<Rightarrow> pystr" where
  "join sep [] = []"
| "join sep [p] = p"
| "join sep (p # q # ps) = p @ sep @ join sep (q # ps)"

definition startswith :: "pystr \<Rightarrow> pystr \<Rightarrow> bool" where
  "startswith s p \<longleftrightarrow> take (length p) s = p"

section \<open>Float arithmetic\<close>

text \<open>Rounding to the nearest integer, a tie going to the even one.\<close>

definition round_half_even :: "rat \<Rightarrow> int" where
  "round_half_even x =
     (let f = \<lfloor>x\<rfloor>; d = x - of_int f
      in if d < 1 / 2 then f else if 1 / 2 < d then f + 1 else if even f then f else f + 1)"

text \<open>
  The binary exponent of a positive number, found by doubling or halving: the least
  \<open>k\<close> with \<open>1 \<le> x * 2 ^ k\<close> and the least \<open>j\<close> with \<open>x / 2 ^ j < 2\<close>, each
  searched up to a bound \<open>f\<close>.
\<close>

fun shift_up :: "nat \<Rightarrow> rat \<Rightarrow> nat" where
  "shift_up f x = (if f = 0 \<or> 1 \<le> x then 0 else Suc (shift_up (f - 1) (2 * x)))"

fun shift_down :: "nat \<Rightarrow> rat \<Rightarrow> nat" where
  "shift_down f x = (if f = 0 \<or> x < 2 then 0 else Suc (shift_down (f - 1) (x / 2)))"

declare shift_up.simps [simp del] shift_down.simps [simp del]

text \<open>
  Python's \<open>n / d\<close> on two non-negative integers, \<open>d\<close> not 0: the binary64 nearest to
  the quotient, ties to even. The quotient is scaled into the interval from 1 to 2, its
  significand of 53 bits is rounded to an integer, and the scaling is undone. The
  integers here are word counts, far from the range where binary64 overflows or
  loses its normal form.
\<close>

definition truediv :: "nat \<Rightarrow> nat \<Rightarrow> rat" where
  "truediv n d =
     (if n = 0 then 0
      else
        (let x = of_nat n / of_nat d;
             k = shift_up d x;
             j = shift_down n x;
             m = round_half_even (x * 2 ^ (52 + k) / 2 ^ j)
         in of_int m * 2 ^ j / 2 ^ (52 + k)))"

section \<open>Data model (app/models.py)\<close>

datatype DocumentType = PDF | IMAGE | TEXT | DOCX | DOC

datatype ProcessingStatus = PENDING | PROCESSING | COMPLETED | FAILED | CANCELLED

record OCRResult =
  ocr_text :: pystr
  ocr_confidence :: rat
  ocr_processing_time :: rat
  ocr_page_count :: "nat option"

record DocumentResult =
  document_id :: pystr
  filename :: pystr
  status :: ProcessingStatus
  extracted_text :: "pystr option"
  summary :: "pystr option"
  similarity_score :: "rat option"
  justification :: "pystr option"
  relevant_excerpts :: "pystr list option"
  processing_time :: rat
  error_message :: "pystr option"

record BatchResponse =
  request_id :: pystr
  user_id :: pystr
  query :: "pystr option"
  total_documents :: nat
  successful_documents :: nat
  failed_documents :: nat
  results :: "DocumentResult list"
  total_processing_time :: rat
  timestamp :: rat

section \<open>The collaborators\<close>

text \<open>
  An uploaded file as the batch endpoint receives it: its name, its declared content type
  (absent when the part carries no Content-Type header) and what \<open>await file.read()\<close>
  gives, which is the payload or an exception.
\<close>

record UploadFile =
  uf_filename :: pystr
  uf_content_type :: "pystr option"
  uf_read :: "error + bytes"

text \<open>
  A page of an opened PDF: what \<open>page.get_text()\<close> gives, and what
  \<open>page.get_pixmap().tobytes("png")\<close> gives.
\<close>

record page =
  get_text :: "error + pystr"
  get_pixmap_png :: "error + bytes"

text \<open>
  The libraries and services the code calls and this theory does not define: the clock,
  the UUID generator, \<open>str.lower\<close>, base64, PyMuPDF, PIL with Tesseract
  (\<open>Image.open\<close> followed by \<open>image_to_string\<close>), scikit-learn's TF-IDF cosine
  similarity, and the two analyzer methods the batch endpoint calls besides
  \<open>calculate_similarity\<close>. Each one that can raise returns a sum. The clock and the
  UUID generator read and advance a world \<open>'w\<close>. Every theorem below holds for every
  such record.
\<close>

record 'w services =
  time_now :: "'w \<Rightarrow> rat \<times> 'w"
  uuid4 :: "'w \<Rightarrow> pystr \<times> 'w"
  utcnow :: "'w \<Rightarrow> rat \<times> 'w"
  str_lower :: "pystr \<Rightarrow> pystr"
  b64encode :: "bytes \<Rightarrow> pystr"
  b64decode :: "pystr \<Rightarrow> error + bytes"
  fitz_open :: "bytes \<Rightarrow> error + page list"
  ocr_image :: "bytes \<Rightarrow> pystr \<Rightarrow> error + pystr"
  summarize_text :: "pystr \<Rightarrow> error + pystr"
  tfidf_similarity :: "pystr \<Rightarrow> pystr list \<Rightarrow> error + rat list"
  find_relevant_excerpts :: "pystr \<Rightarrow> pystr \<Rightarrow> error + pystr list"

section \<open>UTF-8 decoding (\<open>bytes.decode('utf-8', errors)\<close>)\<close>

datatype errors_mode = Strict | Ignore

definition is_cont :: "8 word \<Rightarrow> bool" where
  "is_cont b \<longleftrightarrow> 0x80 \<le> b \<and> b \<le> 0xBF"

text \<open>The length of the sequence a lead byte announces; 0 for a byte that cannot lead.\<close>

definition seq_len :: "8 word \<Rightarrow> nat" where
  "seq_len b0 =
     (if b0 \<le> 0x7F then 1
      else if 0xC2 \<le> b0 \<and> b0 \<le> 0xDF then 2
      else if 0xE0 \<le> b0 \<and> b0 \<le> 0xEF then 3
      else if 0xF0 \<le> b0 \<and> b0 \<le> 0xF4 then 4
      else 0)"

text \<open>
  The second byte's range depends on the lead byte: this is what excludes overlong
  forms, surrogates and code points above U+10FFFF.
\<close>

definition second_ok :: "8 word \<Rightarrow> 8 word \<Rightarrow> bool" where
  "second_ok b0 b1 \<longleftrightarrow>
     (if b0 = 0xE0 then 0xA0 \<le> b1 \<and> b1 \<le> 0xBF
      else if b0 = 0xED then 0x80 \<le> b1 \<and> b1 \<le> 0x9F
      else if b0 = 0xF0 then 0x90 \<le> b1 \<and> b1 \<le> 0xBF
      else if b0 = 0xF4 then 0x80 \<le> b1 \<and> b1 \<le> 0x8F
      else is_cont b1)"

text \<open>
  One step on a non-empty input: the decoded code point and the number of bytes it
  used, or \<open>None\<close> and the length of the ill-formed prefix.
\<close>

fun utf8_step :: "bytes \<Rightarrow> nat option \<times> nat" where
  "utf8_step [] = (None, 0)"
| "utf8_step (b0 # bs) =
     (let n = seq_len b0 in
      if n = 0 then (None, 1)
      else if n = 1 then (Some (unat b0), 1)
      else (case bs of
          [] \<Rightarrow> (None, 1)
        | b1 # bs1 \<Rightarrow>
            if \<not> second_ok b0 b1 then (None, 1)
            else if n = 2 then (Some ((unat b0 - 0xC0) * 64 + (unat b1 - 0x80)), 2)
            else (case bs1 of
                [] \<Rightarrow> (None, 2)
              | b2 # bs2 \<Rightarrow>
                  if \<not> is_cont b2 then (None, 2)
                  else if n = 3 then
                    (Some ((unat b0 - 0xE0) * 4096 + (unat b1 - 0x80) * 64 + (unat b2 - 0x80)), 3)
                  else (case bs2 of
                      [] \<Rightarrow> (None, 3)
                    | b3 # bs3 \<Rightarrow>
                        if \<not> is_cont b3 then (None, 3)
                        else (Some ((unat b0 - 0xF0) * 262144 + (unat b1 - 0x80) * 4096 +
                                    (unat b2 - 0x80) * 64 + (unat b3 - 0x80)), 4)))))"

fun utf8_decode :: "errors_mode \<Rightarrow> bytes \<Rightarrow> error + pystr" where
  "utf8_decode mode [] = Inr []"
| "utf8_decode mode (b # bs) =
     (case utf8_step (b # bs) of
        (Some cp, n) \<Rightarrow>
          (case utf8_decode mode (drop (n - 1) bs) of
             Inl e \<Rightarrow> Inl e
           | Inr cps \<Rightarrow> Inr (cp # cps))
      | (None, n) \<Rightarrow>
          (case mode of
             Strict \<Rightarrow> Inl (UnicodeDecodeError (ascii ''utf-8 codec cannot decode bytes''))
           | Ignore \<Rightarrow> utf8_decode mode (drop (n - 1) bs)))"

section \<open>Text Extractor (app/services/ocr.py)\<close>

text \<open>
  The body of the page loop of \<open>_extract_from_pdf\<close>: the text a page contributes and
  its confidence. The text layer is used when it is not blank, with confidence 0.95;
  otherwise the page is rasterized and recognized, with confidence
  \<open>min(0.8, len(ocr_text.strip()) / 1000)\<close>. An exception of any call leaves the body.
\<close>

definition page_result :: "'w services \<Rightarrow> pystr \<Rightarrow> page \<Rightarrow> error + pystr \<times> rat" where
  "page_result sv language pg =
     (case get_text pg of
        Inl e \<Rightarrow> Inl e
      | Inr direct_text \<Rightarrow>
          if strip direct_text \<noteq> [] then Inr (direct_text, 95 / 100)
          else
            (case get_pixmap_png pg of
               Inl e \<Rightarrow> Inl e
             | Inr img_data \<Rightarrow>
                 (case ocr_image sv img_data language of
                    Inl e \<Rightarrow> Inl e
                  | Inr text \<Rightarrow>
                      Inr (text, min (8 / 10) (of_nat (length (strip text)) / 1000)))))"

text \<open>
  The loop over the pages with its three accumulators \<open>all_text\<close>,
  \<open>total_confidence\<close> and \<open>page_count\<close>. An exception leaves the loop.
\<close>

fun pdf_pages ::
  "'w services \<Rightarrow> pystr \<Rightarrow> page list \<Rightarrow> pystr list \<times> rat \<times> nat \<Rightarrow> error + pystr list \<times> rat \<times> nat"
where
  "pdf_pages sv language [] acc = Inr acc"
| "pdf_pages sv language (pg # pgs) (all_text, total_confidence, page_count) =
     (case page_result sv language pg of
        Inl e \<Rightarrow> Inl e
      | Inr (text, confidence) \<Rightarrow>
          pdf_pages sv language pgs
            (all_text @ [text], total_confidence + confidence, page_count + 1))"

text \<open>\<open>_extract_from_pdf\<close>: one \<open>try\<close> around everything, \<open>("", 0.0)\<close> on any exception.\<close>

definition extract_from_pdf :: "'w services \<Rightarrow> bytes \<Rightarrow> pystr \<Rightarrow> pystr \<times> rat" where
  "extract_from_pdf sv file_data language =
     (case fitz_open sv file_data of
        Inl e \<Rightarrow> ([], 0)
      | Inr pdf_document \<Rightarrow>
          (case pdf_pages sv language pdf_document ([], 0, 0) of
             Inl e \<Rightarrow> ([], 0)
           | Inr (all_text, total_confidence, page_count) \<Rightarrow>
               (join (ascii [CHR 0x0A, CHR 0x0A]) all_text,
                min 1 (if page_count > 0 then total_confidence / of_nat page_count else 0))))"

definition extract_from_image :: "'w services \<Rightarrow> bytes \<Rightarrow> pystr \<Rightarrow> pystr \<times> rat" where
  "extract_from_image sv file_data language =
     (case ocr_image sv file_data language of
        Inl e \<Rightarrow> ([], 0)
      | Inr text \<Rightarrow> (text, min (9 / 10) (of_nat (length (strip text)) / 500)))"

text \<open>The body of the \<open>try\<close> of \<open>extract_text_from_document\<close>: the text and the confidence.\<close>

definition extract_body ::
  "'w services \<Rightarrow> pystr \<Rightarrow> DocumentType \<Rightarrow> pystr \<Rightarrow> error + pystr \<times> rat" where
  "extract_body sv content document_type language =
     (case b64decode sv content of
        Inl e \<Rightarrow> Inl e
      | Inr file_data \<Rightarrow>
          if document_type = PDF then Inr (extract_from_pdf sv file_data language)
          else if document_type = IMAGE then Inr (extract_from_image sv file_data language)
          else (case utf8_decode Strict file_data of
                  Inl e \<Rightarrow> Inl e
                | Inr text \<Rightarrow> Inr (text, 1)))"

definition extract_text_from_document ::
  "'w services \<Rightarrow> pystr \<Rightarrow> DocumentType \<Rightarrow> pystr \<Rightarrow> 'w \<Rightarrow> OCRResult \<times> 'w" where
  "extract_text_from_document sv content document_type language w0 =
     (let (start_time, w1) = time_now sv w0;
          body = extract_body sv content document_type language;
          (end_time, w2) = time_now sv w1
      in case body of
           Inr (text, confidence) \<Rightarrow>
             (\<lparr>ocr_text = text, ocr_confidence = confidence,
               ocr_processing_time = end_time - start_time, ocr_page_count = None\<rparr>, w2)
         | Inl e \<Rightarrow>
             (\<lparr>ocr_text = [], ocr_confidence = 0,
               ocr_processing_time = end_time - start_time, ocr_page_count = None\<rparr>, w2))"

section \<open>Text Analyzer: similarity (app/services/nlp.py)\<close>

text \<open>
  The \<open>except\<close> branch of \<open>calculate_similarity\<close> for one candidate text: the two word
  sets, their intersection, the ratio, which is a float division of two integers, and
  its cap.
\<close>

definition word_overlap :: "'w services \<Rightarrow> pystr \<Rightarrow> pystr \<Rightarrow> rat" where
  "word_overlap sv query_str text =
     (let query_words = set (split (str_lower sv query_str));
          text_words = set (split (str_lower sv text));
          common_words = query_words \<inter> text_words;
          similarity = truediv (card common_words)
                         (max (max (card query_words) (card text_words)) 1)
      in min similarity 1)"

text \<open>
  \<open>calculate_similarity\<close>: the TF-IDF path, and on any exception of it the word-overlap
  ratio of every text, in order.
\<close>

definition calculate_similarity :: "'w services \<Rightarrow> pystr \<Rightarrow> pystr list \<Rightarrow> rat list" where
  "calculate_similarity sv query_str texts =
     (case tfidf_similarity sv query_str texts of
        Inr similarities \<Rightarrow> similarities
      | Inl e \<Rightarrow> map (word_overlap sv query_str) texts)"

section \<open>Batch Orchestrator (app/api.py, \<open>process_batch\<close>)\<close>

subsection \<open>Formatting a float with \<open>:.2f\<close>\<close>

function digits :: "nat \<Rightarrow> pystr" where
  "digits n = (if n < 10 then [48 + n] else digits (n div 10) @ [48 + n mod 10])"
  by pat_completeness auto
termination
  by (relation "measure id") auto

declare digits.simps [simp del]

text \<open>
  The correctly rounded decimal with two fractional digits, a minus sign for a negative
  value.
\<close>

definition format_2f :: "rat \<Rightarrow> pystr" where
  "format_2f x =
     (let n = nat (round_half_even (\<bar>x\<bar> * 100))
      in (if x < 0 then [45] else []) @ digits (n div 100) @ [46] @
         [48 + (n mod 100) div 10, 48 + n mod 10])"

subsection \<open>The justification bands\<close>

text \<open>The binary64 values of the literals \<open>0.7\<close> and \<open>0.4\<close>.\<close>

definition float_0_7 :: rat where
  "float_0_7 = 3152519739159347 / 4503599627370496"

definition float_0_4 :: rat where
  "float_0_4 = 3602879701896397 / 9007199254740992"

definition msg_high_prefix :: pystr where
  "msg_high_prefix = ascii ''Documento altamente relevante (score: ''"

definition msg_high_suffix :: pystr where
  "msg_high_suffix = ascii '') - cont'' @ [233] @ ascii ''m informa'' @ [231, 245] @
     ascii ''es relacionadas '' @ [224] @ ascii '' query''"

definition msg_moderate_prefix :: pystr where
  "msg_moderate_prefix = ascii ''Documento moderadamente relevante (score: ''"

definition msg_moderate_suffix :: pystr where
  "msg_moderate_suffix = ascii '') - possui algumas informa'' @ [231, 245] @
     ascii ''es relacionadas''"

definition msg_low_prefix :: pystr where
  "msg_low_prefix = ascii ''Documento pouco relevante (score: ''"

definition msg_low_suffix :: pystr where
  "msg_low_suffix = ascii '') - poucas informa'' @ [231, 245] @
     ascii ''es relacionadas '' @ [224] @ ascii '' query''"

definition justify :: "rat \<Rightarrow> pystr" where
  "justify score =
     (if float_0_7 < score then
        msg_high_prefix @ format_2f score @ msg_high_suffix
      else if float_0_4 < score then
        msg_moderate_prefix @ format_2f score @ msg_moderate_suffix
      else
        msg_low_prefix @ format_2f score @ msg_low_suffix)"

subsection \<open>One document\<close>

definition LANG_MAP :: "pystr \<rightharpoonup> pystr" where
  "LANG_MAP = map_of
     [(ascii ''pt'', ascii ''por''), (ascii ''en'', ascii ''eng''), (ascii ''es'', ascii ''spa''),
      (ascii ''por'', ascii ''por''), (ascii ''eng'', ascii ''eng''), (ascii ''spa'', ascii ''spa'')]"

text \<open>
  The language given to Tesseract: \<open>LANG_MAP.get(str(language or "por").lower(), "por")\<close>.
\<close>

definition tess_lang_of :: "'w services \<Rightarrow> pystr \<Rightarrow> pystr" where
  "tess_lang_of sv language =
     (let lang_param = str_lower sv (if language = [] then ascii ''por'' else language)
      in case LANG_MAP lang_param of None \<Rightarrow> ascii ''por'' | Some l \<Rightarrow> l)"

text \<open>\<open>bool(query and query.strip())\<close>.\<close>

definition has_query_of :: "pystr option \<Rightarrow> bool" where
  "has_query_of q = (case q of None \<Rightarrow> False | Some s \<Rightarrow> s \<noteq> [] \<and> strip s \<noteq> [])"

text \<open>
  Reading the file and choosing the extraction path by content type. A file with no
  content type fails at \<open>file.content_type.startswith\<close>.
\<close>

definition read_and_extract ::
  "'w services \<Rightarrow> pystr \<Rightarrow> UploadFile \<Rightarrow> 'w \<Rightarrow> (error + pystr) \<times> 'w" where
  "read_and_extract sv tess_lang file w =
     (case uf_read file of
        Inl e \<Rightarrow> (Inl e, w)
      | Inr content \<Rightarrow>
          if uf_content_type file = Some (ascii ''application/pdf'') then
            (let (ocr_result, w') =
                   extract_text_from_document sv (b64encode sv content) PDF tess_lang w
             in (Inr (ocr_text ocr_result), w'))
          else
            (case uf_content_type file of
               None \<Rightarrow>
                 (Inl (AttributeError
                    (ascii ''NoneType object has no attribute startswith'')), w)
             | Some ct \<Rightarrow>
                 if startswith ct (ascii ''image/'') then
                   (let (ocr_result, w') =
                          extract_text_from_document sv (b64encode sv content) IMAGE tess_lang w
                    in (Inr (ocr_text ocr_result), w'))
                 else
                   (case utf8_decode Ignore content of
                      Inl e \<Rightarrow> (Inl e, w)
                    | Inr extracted \<Rightarrow> (Inr extracted, w))))"

text \<open>
  The query-dependent fields: the score, the justification and the excerpts, all absent
  without a query.
\<close>

definition rank_fields ::
  "'w services \<Rightarrow> bool \<Rightarrow> pystr option \<Rightarrow> pystr \<Rightarrow>
   error + rat option \<times> pystr option \<times> pystr list option" where
  "rank_fields sv has_query q extracted =
     (if has_query then
        (case q of
           None \<Rightarrow> Inl (AttributeError (ascii ''NoneType object has no attribute lower''))
         | Some query_str \<Rightarrow>
             (let similarities = calculate_similarity sv query_str [extracted];
                  score = (if similarities \<noteq> [] then hd similarities else 0)
              in case find_relevant_excerpts sv query_str extracted of
                   Inl e \<Rightarrow> Inl e
                 | Inr excerpts \<Rightarrow>
                     Inr (Some score, Some (justify score), Some excerpts)))
      else Inr (None, None, None))"

text \<open>The body of the per-document \<open>try\<close>, up to the fields of the result.\<close>

definition process_try ::
  "'w services \<Rightarrow> bool \<Rightarrow> pystr option \<Rightarrow> pystr \<Rightarrow> UploadFile \<Rightarrow> 'w \<Rightarrow>
   (error + pystr \<times> pystr \<times> rat option \<times> pystr option \<times> pystr list option) \<times> 'w" where
  "process_try sv has_query q tess_lang file w =
     (case read_and_extract sv tess_lang file w of
        (Inl e, w') \<Rightarrow> (Inl e, w')
      | (Inr extracted, w') \<Rightarrow>
          (case summarize_text sv extracted of
             Inl e \<Rightarrow> (Inl e, w')
           | Inr summ \<Rightarrow>
               (case rank_fields sv has_query q extracted of
                  Inl e \<Rightarrow> (Inl e, w')
                | Inr (score, just, excerpts) \<Rightarrow>
                    (Inr (extracted, summ, score, just, excerpts), w'))))"

subsection \<open>The run\<close>

text \<open>
  The loop over the files with its three accumulators: the results, the number of
  successes and the number of failures.
\<close>

fun process_files ::
  "'w services \<Rightarrow> bool \<Rightarrow> pystr option \<Rightarrow> pystr \<Rightarrow> UploadFile list \<Rightarrow>
   DocumentResult list \<times> nat \<times> nat \<Rightarrow> 'w \<Rightarrow> (DocumentResult list \<times> nat \<times> nat) \<times> 'w"
where
  "process_files sv has_query q tess_lang [] acc w = (acc, w)"
| "process_files sv has_query q tess_lang (file # files) (res, successful_docs, failed_docs) w0 =
     (let (doc_start_time, w1) = time_now sv w0;
          (doc_id, w2) = uuid4 sv w1;
          (outcome, w3) = process_try sv has_query q tess_lang file w2;
          (doc_end_time, w4) = time_now sv w3
      in case outcome of
           Inr (extracted, summ, score, just, excerpts) \<Rightarrow>
             process_files sv has_query q tess_lang files
               (res @ [\<lparr>document_id = doc_id, filename = uf_filename file,
                         status = COMPLETED, extracted_text = Some extracted,
                         summary = Some summ, similarity_score = score,
                         justification = just, relevant_excerpts = excerpts,
                         processing_time = doc_end_time - doc_start_time,
                         error_message = None\<rparr>],
                successful_docs + 1, failed_docs) w4
         | Inl e \<Rightarrow>
             process_files sv has_query q tess_lang files
               (res @ [\<lparr>document_id = doc_id, filename = uf_filename file,
                         status = FAILED, extracted_text = None,
                         summary = None, similarity_score = None,
                         justification = None, relevant_excerpts = None,
                         processing_time = doc_end_time - doc_start_time,
                         error_message = Some (str_of_error e)\<rparr>],
                successful_docs, failed_docs + 1) w4)"

text \<open>The sort key \<open>lambda x: x.similarity_score or 0\<close>.\<close>

definition score_or_0 :: "DocumentResult \<Rightarrow> rat" where
  "score_or_0 x = (case similarity_score x of None \<Rightarrow> 0 | Some s \<Rightarrow> s)"

text \<open>
  \<open>list.sort(key=key, reverse=True)\<close>: CPython reverses the list, sorts it with a
  stable ascending sort, and reverses the result.
\<close>

definition sort_reverse :: "('a \<Rightarrow> 'k::linorder) \<Rightarrow> 'a list \<Rightarrow> 'a list" where
  "sort_reverse key xs = rev (sort_key key (rev xs))"

definition process_batch ::
  "'w services \<Rightarrow> pystr \<Rightarrow> pystr \<Rightarrow> pystr option \<Rightarrow> pystr \<Rightarrow> UploadFile list \<Rightarrow> 'w \<Rightarrow>
   BatchResponse \<times> 'w" where
  "process_batch sv req_id usr_id q language files w0 =
     (let (start_time, w1) = time_now sv w0;
          tess_lang = tess_lang_of sv language;
          has_query = has_query_of q;
          ((res, successful_docs, failed_docs), w2) =
            process_files sv has_query q tess_lang files ([], 0, 0) w1;
          res' = (if has_query then sort_reverse score_or_0 res else res);
          (end_time, w3) = time_now sv w2;
          (now, w4) = utcnow sv w3
      in (\<lparr>request_id = req_id, user_id = usr_id,
            query = (if has_query then q else None),
            total_documents = length files,
            successful_documents = successful_docs,
            failed_documents = failed_docs,
            results = res',
            total_processing_time = end_time - start_time,
            timestamp = now\<rparr>, w4))"

text \<open>
  The list \<open>results\<close> holds when the loop of \<open>process_batch\<close> ends, before the sort:
  the outcomes in processing order.
\<close>

definition outcomes_in_order ::
  "'w services \<Rightarrow> pystr option \<Rightarrow> pystr \<Rightarrow> UploadFile list \<Rightarrow> 'w \<Rightarrow> DocumentResult list" where
  "outcomes_in_order sv q language files w0 =
     fst (fst (process_files sv (has_query_of q) q (tess_lang_of sv language) files ([], 0, 0)
                 (snd (time_now sv w0))))"

text \<open>
  What the outcome of one file looks like: it echoes the file's name and is either
  COMPLETED, with text and summary and, exactly when the run has a query, a score, the
  justification of that score and excerpts; or FAILED, with an error message and nothing
  else.
\<close>

definition outcome_for :: "bool \<Rightarrow> UploadFile \<Rightarrow> DocumentResult \<Rightarrow> bool" where
  "outcome_for has_query file r \<longleftrightarrow>
     filename r = uf_filename file \<and>
     (status r = COMPLETED \<and> extracted_text r \<noteq> None \<and> summary r \<noteq> None \<and>
      error_message r = None \<and>
      (if has_query then
         similarity_score r \<noteq> None \<and>
         justification r = map_option justify (similarity_score r) \<and>
         relevant_excerpts r \<noteq> None
       else similarity_score r = None \<and> justification r = None \<and> relevant_excerpts r = None)
      \<or>
      status r = FAILED \<and> extracted_text r = None \<and> summary r = None \<and>
      similarity_score r = None \<and> justification r = None \<and> relevant_excerpts r = None \<and>
      error_message r \<noteq> None)"

text \<open>
  The internal failures of \<open>extract_text_from_document\<close>: the exceptions that can
  arise inside its \<open>try\<close> or inside the \<open>try\<close> of the two helpers: the base64
  decoding, opening the PDF or any call of the page loop, opening or recognizing the
  image, and the strict UTF-8 decoding of any other kind.
\<close>

definition internal_failure :: "'w services \<Rightarrow> pystr \<Rightarrow> DocumentType \<Rightarrow> pystr \<Rightarrow> bool" where
  "internal_failure sv content document_type language =
     (case b64decode sv content of
        Inl e \<Rightarrow> True
      | Inr file_data \<Rightarrow>
          if document_type = PDF then
            (case fitz_open sv file_data of
               Inl e \<Rightarrow> True
             | Inr pdf_document \<Rightarrow> isl (pdf_pages sv language pdf_document ([], 0, 0)))
          else if document_type = IMAGE then isl (ocr_image sv file_data language)
          else isl (utf8_decode Strict file_data))"

section \<open>Information Extractor (app/utils/text.py)\<close>

text \<open>
  The regular expressions of the four extractors, by name: the e-mail pattern; the three
  telephone patterns (area code in parentheses, plain, with the +55 prefix); the URL
  pattern; the four date patterns (day/month/year, day-month-year, year-month-day, and
  day "de" month "de" year). None has a capture group, so \<open>re.findall\<close> returns the
  matched strings.
\<close>

datatype pattern =
    EMAIL_PATTERN
  | PHONE_PARENS | PHONE_PLAIN | PHONE_PLUS55
  | URL_PATTERN
  | DATE_SLASHES | DATE_DASHES | DATE_ISO | DATE_WORDS

text \<open>
  \<open>re.findall(pattern, text, flags)\<close> is a parameter \<open>findall\<close>; its second argument
  tells whether \<open>re.IGNORECASE\<close> is given.
\<close>

type_synonym regex_engine = "pattern \<Rightarrow> bool \<Rightarrow> pystr \<Rightarrow> error + pystr list"

text \<open>
  \<open>list(set(xs))\<close>: the distinct elements of \<open>xs\<close> in the iteration order of the set,
  which Python does not specify. The order is given here by a ranking \<open>h\<close> of the
  elements, and is any order at all as \<open>h\<close> varies.
\<close>

definition list_of_set :: "(pystr \<Rightarrow> nat) \<Rightarrow> pystr list \<Rightarrow> pystr list" where
  "list_of_set h xs = sort_key h (remdups xs)"

text \<open>
  The loop \<open>for pattern in patterns: matches = re.findall(...); acc.extend(matches)\<close>.
\<close>

fun findall_each ::
  "regex_engine \<Rightarrow> bool \<Rightarrow> pattern list \<Rightarrow> pystr \<Rightarrow> pystr list \<Rightarrow> error + pystr list" where
  "findall_each findall ic [] text acc = Inr acc"
| "findall_each findall ic (p # ps) text acc =
     (case findall p ic text of
        Inl e \<Rightarrow> Inl e
      | Inr matches \<Rightarrow> findall_each findall ic ps text (acc @ matches))"

definition extract_emails :: "regex_engine \<Rightarrow> (pystr \<Rightarrow> nat) \<Rightarrow> pystr \<Rightarrow> pystr list" where
  "extract_emails findall h text =
     (case findall EMAIL_PATTERN False text of
        Inl e \<Rightarrow> []
      | Inr emails \<Rightarrow> list_of_set h emails)"

definition extract_phone_numbers :: "regex_engine \<Rightarrow> (pystr \<Rightarrow> nat) \<Rightarrow> pystr \<Rightarrow> pystr list" where
  "extract_phone_numbers findall h text =
     (case findall_each findall False [PHONE_PARENS, PHONE_PLAIN, PHONE_PLUS55] text [] of
        Inl e \<Rightarrow> []
      | Inr phones \<Rightarrow> list_of_set h phones)"

definition extract_urls :: "regex_engine \<Rightarrow> (pystr \<Rightarrow> nat) \<Rightarrow> pystr \<Rightarrow> pystr list" where
  "extract_urls findall h text =
     (case findall URL_PATTERN False text of
        Inl e \<Rightarrow> []
      | Inr urls \<Rightarrow> list_of_set h urls)"

definition extract_dates :: "regex_engine \<Rightarrow> (pystr \<Rightarrow> nat) \<Rightarrow> pystr \<Rightarrow> pystr list" where
  "extract_dates findall h text =
     (case findall_each findall True [DATE_SLASHES, DATE_DASHES, DATE_ISO, DATE_WORDS] text [] of
        Inl e \<Rightarrow> []
      | Inr dates \<Rightarrow> list_of_set h dates)"

section \<open>Text Analyzer: keywords (app/services/nlp.py)\<close>

text \<open>
  The character class of the keyword pattern: the letters a to z and the twelve accented
  letters it lists.
\<close>

definition in_class :: "nat \<Rightarrow> bool" where
  "in_class c \<longleftrightarrow>
     (97 \<le> c \<and> c \<le> 122) \<or>
     c \<in> set [225, 224, 226, 227, 233, 234, 237, 243, 244, 245, 250, 231]"

text \<open>
  The word boundary of a regular expression, between the character before a position
  (none at the start) and the rest of the text: exactly one side is a word character.
  Which characters are word characters (letters, digits and the underscore, over all of
  Unicode) is a parameter \<open>wc\<close>.
\<close>

definition is_boundary :: "(nat \<Rightarrow> bool) \<Rightarrow> nat option \<Rightarrow> pystr \<Rightarrow> bool" where
  "is_boundary wc prev rest \<longleftrightarrow>
     (case prev of None \<Rightarrow> False | Some c \<Rightarrow> wc c) \<noteq>
     (case rest of [] \<Rightarrow> False | c # cs \<Rightarrow> wc c)"

text \<open>
  One attempt to match the keyword pattern (a boundary, three or more characters of the
  class, a boundary) at the start of \<open>rest\<close>: the length of the match. The repetition
  is greedy and backtracks: the longest run of class characters first, then shorter
  ones, down to three.
\<close>

definition match_len :: "(nat \<Rightarrow> bool) \<Rightarrow> nat option \<Rightarrow> pystr \<Rightarrow> nat option" where
  "match_len wc prev rest =
     (if \<not> is_boundary wc prev rest then None
      else find (\<lambda>n. is_boundary wc (Some (rest ! (n - 1))) (drop n rest))
             (rev [3 ..< Suc (length (takeWhile in_class rest))]))"

text \<open>
  \<open>re.findall\<close> for the keyword pattern: scan from the left; after a match continue
  behind it, otherwise move one character on.
\<close>

function findall_words :: "(nat \<Rightarrow> bool) \<Rightarrow> nat option \<Rightarrow> pystr \<Rightarrow> pystr list" where
  "findall_words wc prev [] = []"
| "findall_words wc prev (c # cs) =
     (case match_len wc prev (c # cs) of
        None \<Rightarrow> findall_words wc (Some c) cs
      | Some n \<Rightarrow>
          take n (c # cs) # findall_words wc (Some ((c # cs) ! (n - 1))) (drop n (c # cs)))"
  by pat_completeness auto
termination
proof (relation "measure (\<lambda>(wc, prev, rest). length rest)")
  fix wc :: "nat \<Rightarrow> bool" and prev :: "nat option" and c :: nat and cs :: pystr and n :: nat
  assume m: "match_len wc prev (c # cs) = Some n"
  define xs where "xs = rev [3 ..< Suc (length (takeWhile in_class (c # cs)))]"
  from m have "find (\<lambda>n. is_boundary wc (Some ((c # cs) ! (n - 1))) (drop n (c # cs))) xs = Some n"
    by (simp add: match_len_def xs_def split: if_splits)
  then obtain i where "i < length xs" and "n = xs ! i"
    by (auto simp: find_Some_iff)
  then have "n \<in> set xs"
    by simp
  then have "3 \<le> n"
    unfolding xs_def set_rev set_upt by simp
  then show "((wc, Some ((c # cs) ! (n - 1)), drop n (c # cs)), (wc, prev, c # cs))
      \<in> measure (\<lambda>(wc, prev, rest). length rest)"
    by simp
qed simp_all

definition stop_words :: "pystr set" where
  "stop_words = set
     [ascii ''que'', ascii ''para'', ascii ''com'', ascii ''uma'', ascii ''por'',
      ascii ''s'' @ [227] @ ascii ''o'', ascii ''dos'', ascii ''das'', ascii ''como'',
      ascii ''mais'', ascii ''foi'', ascii ''ser'', ascii ''tem'', ascii ''ter'', ascii ''seu'',
      ascii ''sua'', ascii ''seus'', ascii ''suas'', ascii ''este'', ascii ''esta'',
      ascii ''estes'', ascii ''estas'', ascii ''isso'', ascii ''isto'', ascii ''aqui'',
      ascii ''ali'', ascii ''onde'', ascii ''quando'', ascii ''como'', ascii ''porque'',
      ascii ''mas'', ascii ''tamb'' @ [233] @ ascii ''m'', ascii ''ainda'', ascii ''apenas'',
      ascii ''muito'', ascii ''bem'', ascii ''todo'', ascii ''toda'', ascii ''todos'',
      ascii ''todas'', ascii ''outro'', ascii ''outra'', ascii ''outros'', ascii ''outras'']"

text \<open>
  \<open>filtered_words\<close>: the matches in the lower-cased text that are not stop words and
  are longer than three characters.
\<close>

definition filtered_words :: "'w services \<Rightarrow> (nat \<Rightarrow> bool) \<Rightarrow> pystr \<Rightarrow> pystr list" where
  "filtered_words sv wc text =
     filter (\<lambda>word. word \<notin> stop_words \<and> 3 < length word)
       (findall_words wc None (str_lower sv text))"

text \<open>
  \<open>collections.Counter\<close> of a list: a dictionary in insertion order, so the keys are in
  the order of their first occurrence. Counting one more element:
\<close>

fun counter_add :: "pystr \<Rightarrow> (pystr \<times> nat) list \<Rightarrow> (pystr \<times> nat) list" where
  "counter_add w [] = [(w, 1)]"
| "counter_add w ((k, c) # kcs) =
     (if k = w then (k, c + 1) # kcs else (k, c) # counter_add w kcs)"

definition Counter :: "pystr list \<Rightarrow> (pystr \<times> nat) list" where
  "Counter ws = foldl (\<lambda>d w. counter_add w d) [] ws"

text \<open>
  \<open>most_common(n)\<close> is \<open>heapq.nlargest(n, items, key=count)\<close>, which is
  \<open>sorted(items, key=count, reverse=True)[:n]\<close>, and empty for \<open>n\<close> not positive.
\<close>

definition most_common :: "int \<Rightarrow> (pystr \<times> nat) list \<Rightarrow> (pystr \<times> nat) list" where
  "most_common n d = (if n \<le> 0 then [] else take (nat n) (sort_reverse snd d))"

definition extract_keywords ::
  "'w services \<Rightarrow> (nat \<Rightarrow> bool) \<Rightarrow> pystr \<Rightarrow> int \<Rightarrow> pystr list" where
  "extract_keywords sv wc text max_keywords =
     (let word_counts = Counter (filtered_words sv wc text)
      in map fst (most_common max_keywords word_counts))"

text \<open>The distinct elements of a list, in the order of their first occurrence.\<close>

definition first_occurrences :: "'a list \<Rightarrow> 'a list" where
  "first_occurrences ws = rev (remdups (rev ws))"

section \<open>A concrete set of collaborators\<close>

text \<open>
  Stand-ins for the libraries, used to run the definitions on concrete inputs: a clock
  that ticks once per reading, ASCII lower-casing, an identity transfer encoding, a PDF
  reader that makes one page of each byte (byte 0: no text layer and a page that cannot
  be rendered; byte 1: a blank text layer; any other byte: that character as text
  layer), a recognizer that reads the bytes back as characters, and no scikit-learn, so
  that the TF-IDF path always fails.
\<close>

definition demo_page :: "8 word \<Rightarrow> page" where
  "demo_page b =
     (if b = 0 then
        \<lparr>get_text = Inr [], get_pixmap_png = Inl (ExternalError (ascii ''cannot render page''))\<rparr>
      else if b = 1 then \<lparr>get_text = Inr [32], get_pixmap_png = Inr [b]\<rparr>
      else \<lparr>get_text = Inr [unat b], get_pixmap_png = Inr [b]\<rparr>)"

definition demo_services :: "nat services" where
  "demo_services =
     \<lparr>time_now = (\<lambda>w. (of_nat w, w + 1)),
      uuid4 = (\<lambda>w. (ascii ''doc-'' @ digits w, w + 1)),
      utcnow = (\<lambda>w. (of_nat w, w)),
      str_lower = map (\<lambda>c. if 65 \<le> c \<and> c \<le> 90 then c + 32 else c),
      b64encode = map unat,
      b64decode = (\<lambda>s. if list_all (\<lambda>c. c < 256) s then Inr (map of_nat s)
                        else Inl (ExternalError (ascii ''Incorrect padding''))),
      fitz_open = (\<lambda>bs. if bs = [] then Inl (ExternalError (ascii ''cannot open empty document''))
                        else Inr (map demo_page bs)),
      ocr_image = (\<lambda>bs lang. if bs = [] then Inl (ExternalError (ascii ''cannot identify image file''))
                        else Inr (map unat bs)),
      summarize_text = (\<lambda>t. Inr (take 500 t)),
      tfidf_similarity = (\<lambda>q ts. Inl (ExternalError (ascii ''No module named sklearn''))),
      find_relevant_excerpts = (\<lambda>q t. Inr [])\<rparr>"

definition demo_file :: "string \<Rightarrow> string \<Rightarrow> string \<Rightarrow> UploadFile" where
  "demo_file name ct body =
     \<lparr>uf_filename = ascii name, uf_content_type = Some (ascii ct),
      uf_read = Inr (map of_char body)\<rparr>"

text \<open>A part with no Content-Type header.\<close>

definition demo_untyped_file :: "string \<Rightarrow> UploadFile" where
  "demo_untyped_file name =
     \<lparr>uf_filename = ascii name, uf_content_type = None, uf_read = Inr []\<rparr>"

definition demo_files :: "UploadFile list" where
  "demo_files =
     [demo_file ''a.txt'' ''text/plain'' ''green pear'',
      demo_file ''b.txt'' ''text/plain'' ''red apple pie'',
      demo_untyped_file ''c.txt'',
      demo_file ''d.txt'' ''text/plain'' ''an apple'']"

text \<open>
  A stand-in for the regular-expression engine: the e-mail pattern finds the words that
  contain an at sign, the plain telephone pattern finds the words of ten digits, the
  other patterns find nothing.
\<close>

definition demo_findall :: regex_engine where
  "demo_findall p ic text =
     (case p of
        EMAIL_PATTERN \<Rightarrow> Inr (filter (\<lambda>w. 64 \<in> set w) (split text))
      | PHONE_PLAIN \<Rightarrow>
          Inr (filter (\<lambda>w. length w = 10 \<and> list_all (\<lambda>c. 48 \<le> c \<and> c \<le> 57) w) (split text))
      | _ \<Rightarrow> Inr [])"

text \<open>
  A stand-in for the word characters: the ASCII letters, digits and underscore, and the
  Latin-1 letters.
\<close>

definition demo_word_char :: "nat \<Rightarrow> bool" where
  "demo_word_char c \<longleftrightarrow>
     (48 \<le> c \<and> c \<le> 57) \<or> (65 \<le> c \<and> c \<le> 90) \<or> c = 95 \<or> (97 \<le> c \<and> c \<le> 122) \<or>
     (192 \<le> c \<and> c \<le> 255 \<and> c \<noteq> 215 \<and> c \<noteq> 247)"

section \<open>Properties of the float arithmetic\<close>

lemma floor_numeral_div: "\<lfloor>numeral a / numeral b :: rat\<rfloor> = numeral a div numeral b"
  using floor_divide_of_int_eq [of "numeral a" "numeral b", where ?'a = rat] by simp

lemmas float_defs = truediv_def shift_up.simps shift_down.simps round_half_even_def
  floor_numeral_div

lemma truediv_examples:
  "truediv 2 3 = 6004799503160661 / 9007199254740992"
  "truediv 7 10 = 3152519739159347 / 4503599627370496"
  "truediv 1 40 = 3602879701896397 / 144115188075855872"
  "truediv 1 2 = 1 / 2" "truediv 0 5 = 0" "truediv 3 3 = 1"
  "truediv 10 3 = 7505999378950827 / 2251799813685248"
  by (simp_all add: float_defs Let_def)

lemma round_half_even_nonneg: "0 \<le> x \<Longrightarrow> 0 \<le> round_half_even x"
  unfolding round_half_even_def Let_def by simp

lemma digits_small: "n < 10 \<Longrightarrow> digits n = [48 + n]"
  by (subst digits.simps) simp

lemma digits_large: "10 \<le> n \<Longrightarrow> digits n = digits (n div 10) @ [48 + n mod 10]"
  by (subst digits.simps) simp

lemma digits_nonempty: "digits n \<noteq> []"
  by (subst digits.simps) simp

lemma digits_all: "list_all (\<lambda>c. 48 \<le> c \<and> c \<le> 57) (digits n)"
proof (induction n rule: digits.induct)
  case (1 n)
  show ?case
  proof (cases "n < 10")
    case True
    then show ?thesis by (simp add: digits_small)
  next
    case False
    then have "list_all (\<lambda>c. 48 \<le> c \<and> c \<le> 57) (digits (n div 10))"
      by (rule 1)
    moreover have "n mod 10 \<le> 9"
      by (simp add: Suc_leI [of "n mod 10" 9, simplified] less_Suc_eq_le [symmetric])
    ultimately show ?thesis
      using False by (simp add: digits_large)
  qed
qed

lemma digits_value: "foldl (\<lambda>a c. 10 * a + (c - 48)) 0 (digits n) = n"
proof (induction n rule: digits.induct)
  case (1 n)
  show ?case
  proof (cases "n < 10")
    case True
    then show ?thesis by (simp add: digits_small)
  next
    case False
    then have "foldl (\<lambda>a c. 10 * a + (c - 48)) 0 (digits (n div 10)) = n div 10"
      by (rule 1)
    then show ?thesis
      using False by (simp add: digits_large)
  qed
qed

lemma digits_leading: "hd (digits n) = 48 \<Longrightarrow> digits n = [48]"
proof (induction n rule: digits.induct)
  case (1 n)
  show ?case
  proof (cases "n < 10")
    case True
    with 1(2) show ?thesis by (simp add: digits_small)
  next
    case False
    then have big: "digits n = digits (n div 10) @ [48 + n mod 10]"
      by (simp add: digits_large)
    with 1(2) have "hd (digits (n div 10)) = 48"
      by (simp add: digits_nonempty)
    with False have "digits (n div 10) = [48]"
      by (rule 1(1))
    then have "foldl (\<lambda>a c. 10 * a + (c - 48)) 0 (digits (n div 10)) = 0"
      by simp
    then have "n div 10 = 0"
      by (simp only: digits_value)
    with False show ?thesis by simp
  qed
qed

lemma round_half_even_close: "\<bar>of_int (round_half_even x) - x\<bar> \<le> 1 / 2"
proof -
  have "of_int \<lfloor>x\<rfloor> \<le> x" and "x < of_int \<lfloor>x\<rfloor> + 1"
    by linarith+
  then show ?thesis
    unfolding round_half_even_def Let_def
    by (simp add: abs_le_iff) linarith?
qed

lemma round_half_even_tie:
  assumes "\<bar>of_int (round_half_even x) - x\<bar> = 1 / 2"
  shows "even (round_half_even x)"
proof -
  define d where "d = x - of_int \<lfloor>x\<rfloor>"
  have d0: "0 \<le> d" and d1: "d < 1"
    unfolding d_def by linarith+
  have x: "x = of_int \<lfloor>x\<rfloor> + d"
    by (simp add: d_def)
  show ?thesis
  proof (cases "d < 1 / 2")
    case True
    then have "round_half_even x = \<lfloor>x\<rfloor>"
      by (simp add: round_half_even_def Let_def d_def)
    with assms have "\<bar>- d\<bar> = 1 / 2"
      by (simp add: d_def)
    with True d0 show ?thesis by simp
  next
    case False
    show ?thesis
    proof (cases "1 / 2 < d")
      case True
      then have "round_half_even x = \<lfloor>x\<rfloor> + 1"
        using False by (simp add: round_half_even_def Let_def d_def)
      with assms have "\<bar>1 - d\<bar> = 1 / 2"
        by (simp add: d_def algebra_simps)
      with True d1 show ?thesis by simp
    next
      case F2: False
      with False show ?thesis
        by (simp add: round_half_even_def Let_def d_def)
    qed
  qed
qed

lemma round_half_even_le:
  assumes "x \<le> of_int N"
  shows "round_half_even x \<le> N"
proof (cases "x = of_int N")
  case True
  then show ?thesis by (simp add: round_half_even_def)
next
  case False
  with assms have "x < of_int N" by simp
  then have "\<lfloor>x\<rfloor> < N" by (simp add: floor_less_iff)
  then show ?thesis
    by (simp add: round_half_even_def Let_def)
qed

lemma round_half_even_ge:
  assumes "of_int N \<le> x"
  shows "N \<le> round_half_even x"
proof -
  from assms have "N \<le> \<lfloor>x\<rfloor>" by (simp add: le_floor_iff)
  then show ?thesis
    by (simp add: round_half_even_def Let_def)
qed

lemma shift_up_reaches: "1 \<le> x * 2 ^ f \<Longrightarrow> 1 \<le> x * 2 ^ shift_up f x"
proof (induction f x rule: shift_up.induct)
  case (1 f x)
  show ?case
  proof (cases "f = 0 \<or> 1 \<le> x")
    case True
    with "1.prems" show ?thesis
      by (subst shift_up.simps) auto
  next
    case False
    then obtain g where g: "f = Suc g" by (cases f) auto
    from "1.prems" have "1 \<le> (2 * x) * 2 ^ (f - 1)"
      by (simp add: g)
    from "1.IH" [OF False this] False show ?thesis
      by (subst shift_up.simps) (simp add: mult.assoc)
  qed
qed

lemma shift_up_small: "0 < x \<Longrightarrow> x < 2 \<Longrightarrow> x * 2 ^ shift_up f x < 2"
proof (induction f x rule: shift_up.induct)
  case (1 f x)
  show ?case
  proof (cases "f = 0 \<or> 1 \<le> x")
    case True
    with "1.prems" show ?thesis
      by (subst shift_up.simps) auto
  next
    case False
    then have "0 < 2 * x" "2 * x < 2"
      using "1.prems" by simp_all
    from "1.IH" [OF False this] False show ?thesis
      by (subst shift_up.simps) (simp add: mult.assoc)
  qed
qed

lemma truediv_zero: "truediv 0 d = 0"
  by (simp add: truediv_def)

lemma truediv_small:
  "truediv (Suc (Suc 0)) (Suc (Suc (Suc 0))) = 6004799503160661 / 9007199254740992"
  "truediv (Suc 0) (Suc (Suc 0)) = 1 / 2"
  "truediv 0 d = 0"
  using truediv_examples by (simp_all add: numeral_2_eq_2 numeral_3_eq_3 truediv_zero)

lemma truediv_fraction:
  assumes "0 < n" and "n \<le> d"
  shows "\<exists>m k. truediv n d = of_int m / 2 ^ (52 + k) \<and> 2 ^ 52 \<le> m \<and> m \<le> 2 ^ 53 \<and>
           m \<le> 2 ^ (52 + k) \<and>
           \<bar>truediv n d - of_nat n / of_nat d\<bar> \<le> (of_nat n / of_nat d) / 2 ^ 53 \<and>
           \<bar>truediv n d - of_nat n / of_nat d\<bar> \<le> 1 / 2 ^ (53 + k) \<and>
           (\<bar>truediv n d - of_nat n / of_nat d\<bar> = 1 / 2 ^ (53 + k) \<longrightarrow> even m)"
proof -
  define x :: rat where "x = of_nat n / of_nat d"
  define k where "k = shift_up d x"
  define y where "y = x * 2 ^ (52 + k)"
  define m where "m = round_half_even y"
  have d: "0 < d" using assms by simp
  have x0: "0 < x" using assms d by (simp add: x_def)
  have x1: "x \<le> 1" using assms d by (simp add: x_def)
  have j: "shift_down n x = 0"
    using x1 by (subst shift_down.simps) simp
  have td: "truediv n d = of_int m / 2 ^ (52 + k)"
    using assms(1) j [unfolded x_def]
    by (simp add: truediv_def Let_def m_def y_def k_def x_def)
  have "(of_nat d :: rat) \<le> 2 ^ d"
    by (metis of_nat_less_two_power less_imp_le)
  then have "(1 :: rat) \<le> 2 ^ d / of_nat d"
    using d by (simp add: le_divide_eq)
  also have "\<dots> \<le> of_nat n * 2 ^ d / of_nat d"
    using assms(1) d by (simp add: divide_le_cancel)
  finally have "1 \<le> x * 2 ^ d"
    by (simp add: x_def)
  then have lo: "1 \<le> x * 2 ^ k"
    unfolding k_def by (rule shift_up_reaches)
  have hi: "x * 2 ^ k < 2"
    unfolding k_def using x0 x1 by (intro shift_up_small) simp_all
  have y_lo: "2 ^ 52 \<le> y"
  proof -
    have "1 * 2 ^ 52 \<le> (x * 2 ^ k) * 2 ^ 52"
      using lo by (intro mult_right_mono) simp_all
    then show ?thesis
      by (simp add: y_def power_add mult_ac)
  qed
  have y_hi: "y \<le> 2 ^ 53"
  proof -
    have "(x * 2 ^ k) * 2 ^ 52 \<le> 2 * 2 ^ 52"
      using hi by (intro mult_right_mono) simp_all
    then show ?thesis
      by (simp add: y_def power_add mult_ac)
  qed
  have y_one: "y \<le> 2 ^ (52 + k)"
  proof -
    have "x * 2 ^ (52 + k) \<le> 1 * 2 ^ (52 + k)"
      using x1 by (intro mult_right_mono) simp_all
    then show ?thesis by (simp add: y_def)
  qed
  have m_lo: "2 ^ 52 \<le> m"
    unfolding m_def using y_lo by (intro round_half_even_ge) simp
  have m_hi: "m \<le> 2 ^ 53"
    unfolding m_def using y_hi by (intro round_half_even_le) simp
  have m_one: "m \<le> 2 ^ (52 + k)"
    unfolding m_def using y_one by (intro round_half_even_le) simp
  have close: "\<bar>of_int m - y\<bar> \<le> 1 / 2"
    unfolding m_def by (rule round_half_even_close)
  have "truediv n d - x = (of_int m - y) / 2 ^ (52 + k)"
    by (simp add: td y_def diff_divide_distrib)
  then have dist: "\<bar>truediv n d - x\<bar> = \<bar>of_int m - y\<bar> / 2 ^ (52 + k)"
    by (simp add: abs_divide)
  have tie: "\<bar>truediv n d - x\<bar> = 1 / 2 ^ (53 + k) \<longrightarrow> even m"
  proof
    assume "\<bar>truediv n d - x\<bar> = 1 / 2 ^ (53 + k)"
    then have "\<bar>of_int m - y\<bar> / 2 ^ (52 + k) = (1 / 2) / 2 ^ (52 + k)"
      by (simp add: dist power_add)
    then have "\<bar>of_int m - y\<bar> = 1 / 2"
      by (simp only: divide_cancel_right) simp
    then show "even m"
      unfolding m_def by (rule round_half_even_tie)
  qed
  have "\<bar>truediv n d - x\<bar> = \<bar>of_int m - y\<bar> / 2 ^ (52 + k)"
    by (rule dist)
  also have "\<dots> \<le> (1 / 2) / 2 ^ (52 + k)"
    using close by (intro divide_right_mono) simp_all
  also have "\<dots> = 1 / (2 ^ k * 2 ^ 53)"
    by (simp add: power_add)
  finally have half: "\<bar>truediv n d - x\<bar> \<le> 1 / (2 ^ k * 2 ^ 53)" .
  also have "1 / (2 ^ k * 2 ^ 53) \<le> x / 2 ^ 53"
  proof -
    have "1 / 2 ^ k \<le> x"
      using lo by (simp add: divide_le_eq)
    then have "(1 / 2 ^ k) / 2 ^ 53 \<le> x / 2 ^ 53"
      by (intro divide_right_mono) simp_all
    then show ?thesis by simp
  qed
  finally have err: "\<bar>truediv n d - x\<bar> \<le> x / 2 ^ 53" .
  from half have half': "\<bar>truediv n d - x\<bar> \<le> 1 / 2 ^ (53 + k)"
    by (simp add: power_add mult.commute)
  from td m_lo m_hi m_one err half' tie show ?thesis
    unfolding x_def by blast
qed

lemma truediv_unit_interval:
  assumes "n \<le> d"
  shows "0 \<le> truediv n d \<and> truediv n d \<le> 1"
proof (cases "n = 0")
  case True
  then show ?thesis by (simp add: truediv_zero)
next
  case False
  with assms truediv_fraction [of n d] obtain m k where
    td: "truediv n d = of_int m / 2 ^ (52 + k)" and "2 ^ 52 \<le> m" and one: "m \<le> 2 ^ (52 + k)"
    by auto
  then have "0 \<le> m" by (meson order_trans zero_le_numeral zero_le_power)
  moreover have "(of_int m :: rat) \<le> 2 ^ (52 + k)"
    using one by (metis of_int_le_iff of_int_numeral of_int_power)
  ultimately show ?thesis
    by (simp add: td divide_le_eq)
qed

section \<open>Properties of the batch run\<close>

lemmas demo_defs = demo_services_def demo_files_def demo_file_def demo_untyped_file_def

lemmas batch_defs = process_batch_def tess_lang_of_def LANG_MAP_def
  process_try_def read_and_extract_def rank_fields_def
  has_query_of_def strip_def isspace_def ascii_def Let_def seq_len_def startswith_def
  calculate_similarity_def word_overlap_def split_def score_or_0_def truediv_small

lemma sort_reverse_sorted:
  "sorted_wrt (\<lambda>a b. key b \<le> key a) (sort_reverse key xs)"
proof -
  have "sorted (map key (sort_key key (rev xs)))"
    by (rule sorted_sort_key)
  then have "sorted_wrt (\<lambda>a b. key a \<le> key b) (sort_key key (rev xs))"
    by (simp add: sorted_map)
  then show ?thesis
    by (simp add: sort_reverse_def sorted_wrt_rev)
qed

lemma sort_reverse_stable:
  "filter (\<lambda>y. key y = k) (sort_reverse key xs) = filter (\<lambda>y. key y = k) xs"
proof -
  have "filter (\<lambda>y. key y = k) (sort_reverse key xs) =
        rev (filter (\<lambda>y. key y = k) (sort_key key (rev xs)))"
    by (simp add: sort_reverse_def rev_filter)
  also have "\<dots> = rev (filter (\<lambda>y. key y = k) (rev xs))"
    by (simp only: sort_key_stable)
  also have "\<dots> = filter (\<lambda>y. key y = k) xs"
    by (simp add: rev_filter)
  finally show ?thesis .
qed

lemma mset_sort_reverse: "mset (sort_reverse key xs) = mset xs"
  by (simp add: sort_reverse_def)

lemma rank_fields_shape:
  assumes "rank_fields sv hq q t = Inr (s, j, x)"
  shows "if hq then s \<noteq> None \<and> j = map_option justify s \<and> x \<noteq> None
         else s = None \<and> j = None \<and> x = None"
  using assms
  by (auto simp: rank_fields_def Let_def split: if_splits option.splits sum.splits)

lemma process_try_shape:
  assumes "process_try sv hq q lang file w = (Inr (t, sm, s, j, x), w')"
  shows "if hq then s \<noteq> None \<and> j = map_option justify s \<and> x \<noteq> None
         else s = None \<and> j = None \<and> x = None"
proof -
  from assms obtain t' where "rank_fields sv hq q t' = Inr (s, j, x)"
    by (auto simp: process_try_def split: prod.splits sum.splits)
  then show ?thesis by (rule rank_fields_shape)
qed

lemma process_files_outcomes:
  assumes "process_files sv hq q lang files (res, a, b) w = ((res', a', b'), w')"
  shows "\<exists>new. res' = res @ new \<and> list_all2 (outcome_for hq) files new \<and>
           a' = a + length (filter (\<lambda>r. status r = COMPLETED) new) \<and>
           b' = b + length (filter (\<lambda>r. status r = FAILED) new)"
  using assms
proof (induction files arbitrary: res a b w)
  case Nil
  then show ?case by simp
next
  case (Cons fl files)
  obtain t0 w1 where t0: "time_now sv w = (t0, w1)" by (cases "time_now sv w")
  obtain d w2 where d: "uuid4 sv w1 = (d, w2)" by (cases "uuid4 sv w1")
  obtain out w3 where out: "process_try sv hq q lang fl w2 = (out, w3)"
    by (cases "process_try sv hq q lang fl w2")
  obtain t1 w4 where t1: "time_now sv w3 = (t1, w4)" by (cases "time_now sv w3")
  show ?case
  proof (cases out)
    case (Inl e)
    define r where "r = \<lparr>document_id = d, filename = uf_filename fl,
                         status = FAILED, extracted_text = None,
                         summary = None, similarity_score = None,
                         justification = None, relevant_excerpts = None,
                         processing_time = t1 - t0,
                         error_message = Some (str_of_error e)\<rparr>"
    from Cons.prems t0 d out t1 Inl
    have "process_files sv hq q lang files (res @ [r], a, b + 1) w4 = ((res', a', b'), w')"
      by (simp add: r_def)
    from Cons.IH [OF this] obtain new where new:
      "res' = (res @ [r]) @ new" "list_all2 (outcome_for hq) files new"
      "a' = a + length (filter (\<lambda>r. status r = COMPLETED) new)"
      "b' = b + 1 + length (filter (\<lambda>r. status r = FAILED) new)"
      by blast
    have "outcome_for hq fl r"
      by (simp add: outcome_for_def r_def)
    with new show ?thesis
      by (intro exI [of _ "r # new"]) (simp add: r_def)
  next
    case (Inr v)
    obtain t sm s j x where v: "v = (t, sm, s, j, x)" by (cases v)
    define r where "r = \<lparr>document_id = d, filename = uf_filename fl,
                         status = COMPLETED, extracted_text = Some t,
                         summary = Some sm, similarity_score = s,
                         justification = j, relevant_excerpts = x,
                         processing_time = t1 - t0,
                         error_message = None\<rparr>"
    from Cons.prems t0 d out t1 Inr v
    have "process_files sv hq q lang files (res @ [r], a + 1, b) w4 = ((res', a', b'), w')"
      by (simp add: r_def)
    from Cons.IH [OF this] obtain new where new:
      "res' = (res @ [r]) @ new" "list_all2 (outcome_for hq) files new"
      "a' = a + 1 + length (filter (\<lambda>r. status r = COMPLETED) new)"
      "b' = b + length (filter (\<lambda>r. status r = FAILED) new)"
      by blast
    from out Inr v have "process_try sv hq q lang fl w2 = (Inr (t, sm, s, j, x), w3)"
      by simp
    from process_try_shape [OF this] have "outcome_for hq fl r"
      by (simp add: outcome_for_def r_def split: if_splits)
    with new show ?thesis
      by (intro exI [of _ "r # new"]) (simp add: r_def)
  qed
qed

lemma process_batch_results:
  "results (fst (process_batch sv rid uid q language files w)) =
     (if has_query_of q then sort_reverse score_or_0 (outcomes_in_order sv q language files w)
      else outcomes_in_order sv q language files w)"
  by (simp add: process_batch_def outcomes_in_order_def Let_def split: prod.splits)

lemma process_batch_unfold:
  assumes "time_now sv w = (t0, w1)"
    and "process_files sv (has_query_of q) q (tess_lang_of sv language) files ([], 0, 0) w1 =
           ((res, a, b), w2)"
  shows "successful_documents (fst (process_batch sv rid uid q language files w)) = a"
    and "failed_documents (fst (process_batch sv rid uid q language files w)) = b"
    and "outcomes_in_order sv q language files w = res"
  using assms
  by (simp_all add: process_batch_def outcomes_in_order_def Let_def split: prod.splits)

lemma outcomes_in_order_shape:
  "list_all2 (outcome_for (has_query_of q)) files (outcomes_in_order sv q language files w)"
proof -
  obtain t0 w1 where t0: "time_now sv w = (t0, w1)" by (cases "time_now sv w")
  obtain res a b w2 where run:
    "process_files sv (has_query_of q) q (tess_lang_of sv language) files ([], 0, 0) w1 =
       ((res, a, b), w2)"
    by (metis prod_cases3 surj_pair)
  from process_files_outcomes [OF run] have "list_all2 (outcome_for (has_query_of q)) files res"
    by auto
  then show ?thesis
    by (simp add: process_batch_unfold(3) [OF t0 run])
qed



lemma outcome_for_filename: "list_all2 (outcome_for hq) files rs \<Longrightarrow> map filename rs = map uf_filename files"
  by (induction files rs rule: list_all2_induct) (auto simp: outcome_for_def)


lemma length_filter_mset_cong:
  "mset xs = mset ys \<Longrightarrow> length (filter P xs) = length (filter P ys)"
  by (metis mset_filter size_mset)

lemma outcome_for_missing_score:
  "list_all2 (outcome_for True) files rs \<Longrightarrow>
     \<forall>r \<in> set rs. similarity_score r = None \<longleftrightarrow> status r = FAILED"
  by (induction files rs rule: list_all2_induct) (auto simp: outcome_for_def)

text \<open>
  Claim C1. In a run with a non-blank query the final list is sorted by similarity score,
  highest first, an outcome with no score counting as 0 and an outcome with score
  \<open>s\<close> counting as \<open>s\<close>; the outcomes with no score are the FAILED ones; the sort is stable: the outcomes of any one score keep the
  order in which they were produced, and the final list holds the same outcomes as the
  processing order. In a run without a query the final list is the list in processing
  order. In both, the processing order is the input order: the i-th outcome echoes the
  name of the i-th file.
\<close>

theorem ranked_order:
  "map filename (outcomes_in_order sv q language files w) = map uf_filename files \<and>
   (has_query_of q \<longrightarrow>
      sorted_wrt (\<lambda>a b. (case similarity_score b of None \<Rightarrow> 0 | Some s \<Rightarrow> s) \<le>
                         (case similarity_score a of None \<Rightarrow> 0 | Some s \<Rightarrow> s))
        (results (fst (process_batch sv rid uid q language files w))) \<and>
      (\<forall>k. filter (\<lambda>r. (case similarity_score r of None \<Rightarrow> 0 | Some s \<Rightarrow> s) = k)
             (results (fst (process_batch sv rid uid q language files w))) =
           filter (\<lambda>r. (case similarity_score r of None \<Rightarrow> 0 | Some s \<Rightarrow> s) = k)
             (outcomes_in_order sv q language files w)) \<and>
      mset (results (fst (process_batch sv rid uid q language files w))) =
        mset (outcomes_in_order sv q language files w) \<and>
      (\<forall>r \<in> set (results (fst (process_batch sv rid uid q language files w))).
         similarity_score r = None \<longleftrightarrow> status r = FAILED)) \<and>
   (\<not> has_query_of q \<longrightarrow>
      results (fst (process_batch sv rid uid q language files w)) =
        outcomes_in_order sv q language files w)"
proof (intro conjI impI)
  have key: "score_or_0 = (\<lambda>r. case similarity_score r of None \<Rightarrow> 0 | Some s \<Rightarrow> s)"
    by (rule ext) (simp add: score_or_0_def)
  show "map filename (outcomes_in_order sv q language files w) = map uf_filename files"
    by (rule outcome_for_filename [OF outcomes_in_order_shape])
  {
    assume q: "has_query_of q"
    have res: "results (fst (process_batch sv rid uid q language files w)) =
      sort_reverse (\<lambda>r. case similarity_score r of None \<Rightarrow> 0 | Some s \<Rightarrow> s)
        (outcomes_in_order sv q language files w)"
      using q by (simp add: process_batch_results key)
    show "sorted_wrt (\<lambda>a b. (case similarity_score b of None \<Rightarrow> 0 | Some s \<Rightarrow> s) \<le>
                         (case similarity_score a of None \<Rightarrow> 0 | Some s \<Rightarrow> s))
        (results (fst (process_batch sv rid uid q language files w)))"
      unfolding res by (rule sort_reverse_sorted)
    show "\<forall>k. filter (\<lambda>r. (case similarity_score r of None \<Rightarrow> 0 | Some s \<Rightarrow> s) = k)
             (results (fst (process_batch sv rid uid q language files w))) =
           filter (\<lambda>r. (case similarity_score r of None \<Rightarrow> 0 | Some s \<Rightarrow> s) = k)
             (outcomes_in_order sv q language files w)"
      unfolding res by (intro allI) (rule sort_reverse_stable)
    show ms: "mset (results (fst (process_batch sv rid uid q language files w))) =
        mset (outcomes_in_order sv q language files w)"
      unfolding res by (rule mset_sort_reverse)
    have "list_all2 (outcome_for True) files (outcomes_in_order sv q language files w)"
      using outcomes_in_order_shape [of q files sv language w] q by simp
    then have "\<forall>r \<in> set (outcomes_in_order sv q language files w).
         similarity_score r = None \<longleftrightarrow> status r = FAILED"
      by (rule outcome_for_missing_score)
    then show "\<forall>r \<in> set (results (fst (process_batch sv rid uid q language files w))).
         similarity_score r = None \<longleftrightarrow> status r = FAILED"
      by (simp only: mset_eq_setD [OF ms])
  }
  assume "\<not> has_query_of q"
  then show "results (fst (process_batch sv rid uid q language files w)) =
        outcomes_in_order sv q language files w"
    by (simp add: process_batch_results)
qed

lemma ranked_order_demo:
  "map (\<lambda>r. (filename r, status r, similarity_score r))
     (results (fst (process_batch demo_services (ascii ''r1'') (ascii ''u1'')
       (Some (ascii ''red apple'')) (ascii ''pt'') demo_files 0))) =
   [(ascii ''b.txt'', COMPLETED, Some (6004799503160661 / 9007199254740992)),
    (ascii ''d.txt'', COMPLETED, Some (1 / 2)),
    (ascii ''a.txt'', COMPLETED, Some 0),
    (ascii ''c.txt'', FAILED, None)] \<and>
   map filename (outcomes_in_order demo_services (Some (ascii ''red apple'')) (ascii ''pt'')
     demo_files 0) =
   [ascii ''a.txt'', ascii ''b.txt'', ascii ''c.txt'', ascii ''d.txt'']"
  by (simp add: process_batch_results sort_reverse_def outcomes_in_order_def
       batch_defs demo_defs)

theorem ranked_order_witness:
  "has_query_of (Some (ascii ''red apple'')) \<and>
   map (\<lambda>r. (filename r, status r, similarity_score r))
     (results (fst (process_batch demo_services (ascii ''r1'') (ascii ''u1'')
       (Some (ascii ''red apple'')) (ascii ''pt'') demo_files 0))) =
   [(ascii ''b.txt'', COMPLETED, Some (6004799503160661 / 9007199254740992)),
    (ascii ''d.txt'', COMPLETED, Some (1 / 2)),
    (ascii ''a.txt'', COMPLETED, Some 0),
    (ascii ''c.txt'', FAILED, None)] \<and>
   map filename (outcomes_in_order demo_services (Some (ascii ''red apple'')) (ascii ''pt'')
     demo_files 0) =
   [ascii ''a.txt'', ascii ''b.txt'', ascii ''c.txt'', ascii ''d.txt''] \<and>
   sorted_wrt (\<lambda>a b. (case similarity_score b of None \<Rightarrow> 0 | Some s \<Rightarrow> s) \<le>
                      (case similarity_score a of None \<Rightarrow> 0 | Some s \<Rightarrow> s))
     (results (fst (process_batch demo_services (ascii ''r1'') (ascii ''u1'')
        (Some (ascii ''red apple'')) (ascii ''pt'') demo_files 0))) \<and>
   mset (results (fst (process_batch demo_services (ascii ''r1'') (ascii ''u1'')
        (Some (ascii ''red apple'')) (ascii ''pt'') demo_files 0))) =
     mset (outcomes_in_order demo_services (Some (ascii ''red apple'')) (ascii ''pt'')
        demo_files 0) \<and>
   \<not> has_query_of (Some (ascii ''   '')) \<and>
   results (fst (process_batch demo_services (ascii ''r1'') (ascii ''u1'')
        (Some (ascii ''   '')) (ascii ''pt'') demo_files 0)) =
     outcomes_in_order demo_services (Some (ascii ''   '')) (ascii ''pt'') demo_files 0"
proof -
  have h1: "has_query_of (Some (ascii ''red apple''))"
    by (simp add: has_query_of_def strip_def isspace_def ascii_def)
  have h2: "\<not> has_query_of (Some (ascii ''   ''))"
    by (simp add: has_query_of_def strip_def isspace_def ascii_def)
  show ?thesis
    using h1 h2 ranked_order_demo
      ranked_order [of demo_services "Some (ascii ''red apple'')" "ascii ''pt''" demo_files 0
        "ascii ''r1''" "ascii ''u1''"]
      ranked_order [of demo_services "Some (ascii ''   '')" "ascii ''pt''" demo_files 0
        "ascii ''r1''" "ascii ''u1''"]
    by blast
qed



lemma strip_empty_iff: "strip s = [] \<longleftrightarrow> list_all isspace s"
proof
  assume "strip s = []"
  then have all: "\<forall>x \<in> set (dropWhile isspace s). isspace x"
    by (simp add: strip_def dropWhile_eq_Nil_conv)
  have "dropWhile isspace s = []"
  proof (rule ccontr)
    assume ne: "dropWhile isspace s \<noteq> []"
    then have "\<not> isspace (hd (dropWhile isspace s))"
      by (rule hd_dropWhile)
    moreover from ne have "hd (dropWhile isspace s) \<in> set (dropWhile isspace s)"
      by simp
    ultimately show False using all by blast
  qed
  then show "list_all isspace s"
    by (simp add: dropWhile_eq_Nil_conv list_all_iff)
next
  assume "list_all isspace s"
  then have "dropWhile isspace s = []"
    by (simp add: dropWhile_eq_Nil_conv list_all_iff)
  then show "strip s = []"
    by (simp only: strip_def rev.simps dropWhile.simps)
qed

lemma has_query_of_iff:
  "has_query_of q \<longleftrightarrow> (case q of None \<Rightarrow> False | Some s \<Rightarrow> \<not> list_all isspace s)"
  by (auto simp: has_query_of_def strip_empty_iff split: option.splits)

lemma process_try_no_query:
  "process_try sv False q lang fl w = process_try sv False None lang fl w"
  by (auto simp: process_try_def rank_fields_def split: prod.splits sum.splits)

lemma process_files_no_query:
  "process_files sv False q lang files acc w = process_files sv False None lang files acc w"
proof (induction files arbitrary: acc w)
  case Nil
  then show ?case by simp
next
  case (Cons fl files)
  obtain res a b where acc: "acc = (res, a, b)" by (cases acc)
  show ?case
    unfolding acc process_files.simps process_try_no_query [of sv q]
    by (simp add: Cons.IH split: prod.splits sum.splits)
qed

lemma outcome_for_no_query:
  "list_all2 (outcome_for False) files rs \<Longrightarrow>
     \<forall>r \<in> set rs. similarity_score r = None \<and> justification r = None \<and> relevant_excerpts r = None"
  by (induction files rs rule: list_all2_induct) (auto simp: outcome_for_def)

text \<open>
  Claim C3. A run whose query is absent or made of whitespace only is the run with an
  absent query: the same response and the same world; the echoed query is absent; no
  result carries a score, a justification or excerpts.
\<close>

theorem blank_query_is_absent:
  assumes "q = None \<or> (\<exists>s. q = Some s \<and> list_all isspace s)"
  shows "process_batch sv rid uid q language files w =
           process_batch sv rid uid None language files w \<and>
         query (fst (process_batch sv rid uid q language files w)) = None \<and>
         (\<forall>r \<in> set (results (fst (process_batch sv rid uid q language files w))).
            similarity_score r = None \<and> justification r = None \<and> relevant_excerpts r = None)"
proof -
  from assms have nq: "\<not> has_query_of q"
    by (auto simp: has_query_of_iff)
  have nn: "\<not> has_query_of None"
    by (simp add: has_query_of_def)
  have eq: "process_batch sv rid uid q language files w =
           process_batch sv rid uid None language files w"
    unfolding process_batch_def using nq nn
    by (simp add: process_files_no_query [of sv q])
  have "query (fst (process_batch sv rid uid q language files w)) = None"
    using nq by (simp add: process_batch_def Let_def split: prod.splits)
  moreover have "list_all2 (outcome_for False) files (outcomes_in_order sv q language files w)"
    using outcomes_in_order_shape [of q files sv language w] nq by simp
  then have "\<forall>r \<in> set (results (fst (process_batch sv rid uid q language files w))).
            similarity_score r = None \<and> justification r = None \<and> relevant_excerpts r = None"
    using nq by (simp add: process_batch_results outcome_for_no_query)
  ultimately show ?thesis using eq by simp
qed

theorem blank_query_is_absent_witness:
  "list_all isspace (ascii ''   '') \<and>
   process_batch demo_services (ascii ''r1'') (ascii ''u1'') (Some (ascii ''   ''))
       (ascii ''pt'') demo_files 0 =
     process_batch demo_services (ascii ''r1'') (ascii ''u1'') None (ascii ''pt'') demo_files 0 \<and>
   query (fst (process_batch demo_services (ascii ''r1'') (ascii ''u1'') (Some (ascii ''   ''))
       (ascii ''pt'') demo_files 0)) = None \<and>
   map similarity_score (results (fst (process_batch demo_services (ascii ''r1'') (ascii ''u1'')
       (Some (ascii ''   '')) (ascii ''pt'') demo_files 0))) = [None, None, None, None]"
proof -
  have ws: "list_all isspace (ascii ''   '')"
    by (simp add: isspace_def ascii_def)
  then have "Some (ascii ''   '') = None \<or>
      (\<exists>s. Some (ascii ''   '') = Some s \<and> list_all isspace s)"
    by simp
  from blank_query_is_absent [OF this, of demo_services "ascii ''r1''" "ascii ''u1''"
      "ascii ''pt''" demo_files 0]
  have eq: "process_batch demo_services (ascii ''r1'') (ascii ''u1'') (Some (ascii ''   ''))
       (ascii ''pt'') demo_files 0 =
     process_batch demo_services (ascii ''r1'') (ascii ''u1'') None (ascii ''pt'') demo_files 0"
    and qn: "query (fst (process_batch demo_services (ascii ''r1'') (ascii ''u1'')
       (Some (ascii ''   '')) (ascii ''pt'') demo_files 0)) = None"
    by blast+
  have "map similarity_score (results (fst (process_batch demo_services (ascii ''r1'')
       (ascii ''u1'') None (ascii ''pt'') demo_files 0))) = [None, None, None, None]"
    by (simp add: batch_defs demo_defs)
  with ws eq qn show ?thesis
    by simp
qed

lemma float_literals:
  "\<bar>float_0_7 - 7 / 10\<bar> \<le> 1 / 2 ^ 54" "\<bar>float_0_4 - 4 / 10\<bar> \<le> 1 / 2 ^ 55"
  "float_0_7 < 7 / 10" "4 / 10 < float_0_4" "float_0_4 < float_0_7"
  "float_0_7 = 6305039478318694 / 2 ^ 53" "float_0_4 = 7205759403792794 / 2 ^ 54"
  by (simp_all add: float_0_7_def float_0_4_def)

lemma format_2f_shape:
  "\<exists>ds d1 d2. format_2f s = (if s < 0 then [45] else []) @ ds @ [46, 48 + d1, 48 + d2] \<and>
     ds \<noteq> [] \<and> list_all (\<lambda>c. 48 \<le> c \<and> c \<le> 57) ds \<and> (hd ds = 48 \<longrightarrow> ds = [48]) \<and>
     d1 < 10 \<and> d2 < 10 \<and>
     \<bar>of_nat (100 * foldl (\<lambda>a c. 10 * a + (c - 48)) 0 ds + 10 * d1 + d2) / 100 - \<bar>s\<bar>\<bar> \<le> 1 / 200 \<and>
     (\<bar>of_nat (100 * foldl (\<lambda>a c. 10 * a + (c - 48)) 0 ds + 10 * d1 + d2) / 100 - \<bar>s\<bar>\<bar> = 1 / 200
        \<longrightarrow> even d2)"
proof -
  define n where "n = nat (round_half_even (\<bar>s\<bar> * 100))"
  define ds where "ds = digits (n div 100)"
  define d1 where "d1 = (n mod 100) div 10"
  define d2 where "d2 = n mod 10"
  have nn: "0 \<le> round_half_even (\<bar>s\<bar> * 100)"
    by (rule round_half_even_nonneg) simp
  have m10: "(n mod 100) mod 10 = n mod 10"
    by (simp add: mod_mod_cancel)
  have "10 * ((n mod 100) div 10) + (n mod 100) mod 10 = n mod 100"
    by (rule mult_div_mod_eq)
  then have "100 * (n div 100) + (10 * ((n mod 100) div 10) + n mod 10) = n"
    by (simp only: m10 mult_div_mod_eq)
  then have "100 * (n div 100) + 10 * ((n mod 100) div 10) + n mod 10 = n"
    by (simp only: add.assoc)
  then have val: "100 * foldl (\<lambda>a c. 10 * a + (c - 48)) 0 ds + 10 * d1 + d2 = n"
    by (simp only: ds_def d1_def d2_def digits_value)
  have n_int: "(of_nat n :: rat) = of_int (round_half_even (\<bar>s\<bar> * 100))"
    using nn by (simp add: n_def)
  have "(of_nat n :: rat) / 100 - \<bar>s\<bar> = (of_nat n - \<bar>s\<bar> * 100) / 100"
    by (simp add: diff_divide_distrib)
  then have dist: "\<bar>(of_nat n :: rat) / 100 - \<bar>s\<bar>\<bar> =
      \<bar>of_int (round_half_even (\<bar>s\<bar> * 100)) - \<bar>s\<bar> * 100\<bar> / 100"
    by (simp only: abs_divide n_int) simp
  have close: "\<bar>(of_nat n :: rat) / 100 - \<bar>s\<bar>\<bar> \<le> 1 / 200"
    unfolding dist using round_half_even_close [of "\<bar>s\<bar> * 100"] by simp
  have tie: "even d2" if "\<bar>(of_nat n :: rat) / 100 - \<bar>s\<bar>\<bar> = 1 / 200"
  proof -
    from that have "\<bar>of_int (round_half_even (\<bar>s\<bar> * 100)) - \<bar>s\<bar> * 100\<bar> = 1 / 2"
      unfolding dist by simp
    then have "even (round_half_even (\<bar>s\<bar> * 100))"
      by (rule round_half_even_tie)
    then have "even n"
      using nn by (simp add: n_def even_nat_iff)
    moreover have "even (n mod 10) \<longleftrightarrow> even n"
      by presburger
    ultimately show ?thesis
      by (simp add: d2_def)
  qed
  have "n mod 100 < 10 * 10" by simp
  then have d1: "d1 < 10" unfolding d1_def by (rule less_mult_imp_div_less)
  have d2: "d2 < 10" by (simp add: d2_def)
  have fmt: "format_2f s = (if s < 0 then [45] else []) @ ds @ [46, 48 + d1, 48 + d2]"
    by (simp add: format_2f_def n_def Let_def ds_def d1_def d2_def)
  have p1: "ds \<noteq> []"
    unfolding ds_def by (rule digits_nonempty)
  have p2: "list_all (\<lambda>c. 48 \<le> c \<and> c \<le> 57) ds"
    unfolding ds_def by (rule digits_all)
  have p3: "hd ds = 48 \<longrightarrow> ds = [48]"
    unfolding ds_def using digits_leading by blast
  have "format_2f s = (if s < 0 then [45] else []) @ ds @ [46, 48 + d1, 48 + d2] \<and>
     ds \<noteq> [] \<and> list_all (\<lambda>c. 48 \<le> c \<and> c \<le> 57) ds \<and> (hd ds = 48 \<longrightarrow> ds = [48]) \<and>
     d1 < 10 \<and> d2 < 10 \<and>
     \<bar>of_nat (100 * foldl (\<lambda>a c. 10 * a + (c - 48)) 0 ds + 10 * d1 + d2) / 100 - \<bar>s\<bar>\<bar> \<le> 1 / 200 \<and>
     (\<bar>of_nat (100 * foldl (\<lambda>a c. 10 * a + (c - 48)) 0 ds + 10 * d1 + d2) / 100 - \<bar>s\<bar>\<bar> = 1 / 200
        \<longrightarrow> even d2)"
    unfolding val using fmt p1 p2 p3 d1 d2 close tie by blast
  then show ?thesis
    by blast
qed

lemma outcome_for_query:
  "list_all2 (outcome_for True) files rs \<Longrightarrow>
     \<forall>r \<in> set rs. status r = COMPLETED \<longrightarrow>
       similarity_score r \<noteq> None \<and> justification r = map_option justify (similarity_score r)"
  by (induction files rs rule: list_all2_induct) (auto simp: outcome_for_def)

text \<open>
  Claim C4. In a run with a query every COMPLETED outcome has a score, and its
  justification is \<open>justify\<close> of that score. \<open>justify\<close> has three bands with
  exclusive lower bounds: above 0.7 the "altamente relevante" message, else above 0.4
  the "moderadamente relevante" message, else the "pouco relevante" message; the score
  0.7 itself is in the middle band and 0.4 itself in the low band. The two bounds are
  the binary64 values of the literals: 53-bit significands within half a unit in the
  last place of 7/10 and 4/10. Each message embeds the score printed with two decimals:
  a minus sign if the score is negative, then a non-empty run of decimal digits with no
  leading zero unless it is the single digit 0, a point and two decimal digits; the
  number so written is within 0.005 of the absolute value of the score, and when it is
  exactly 0.005 away its last digit is even.
\<close>

theorem justification_bands:
  "(has_query_of q \<longrightarrow>
      (\<forall>r \<in> set (results (fst (process_batch sv rid uid q language files w))).
         status r = COMPLETED \<longrightarrow>
           similarity_score r \<noteq> None \<and>
           justification r = map_option justify (similarity_score r))) \<and>
   (float_0_7 < s \<longrightarrow> justify s = msg_high_prefix @ format_2f s @ msg_high_suffix) \<and>
   (s \<le> float_0_7 \<and> float_0_4 < s \<longrightarrow>
      justify s = msg_moderate_prefix @ format_2f s @ msg_moderate_suffix) \<and>
   (s \<le> float_0_4 \<longrightarrow> justify s = msg_low_prefix @ format_2f s @ msg_low_suffix) \<and>
   justify float_0_7 = msg_moderate_prefix @ format_2f float_0_7 @ msg_moderate_suffix \<and>
   justify float_0_4 = msg_low_prefix @ format_2f float_0_4 @ msg_low_suffix \<and>
   float_0_7 = 6305039478318694 / 2 ^ 53 \<and> \<bar>float_0_7 - 7 / 10\<bar> \<le> 1 / 2 ^ 54 \<and>
   float_0_4 = 7205759403792794 / 2 ^ 54 \<and> \<bar>float_0_4 - 4 / 10\<bar> \<le> 1 / 2 ^ 55 \<and>
   (\<exists>ds d1 d2. format_2f s = (if s < 0 then [45] else []) @ ds @ [46, 48 + d1, 48 + d2] \<and>
      ds \<noteq> [] \<and> list_all (\<lambda>c. 48 \<le> c \<and> c \<le> 57) ds \<and> (hd ds = 48 \<longrightarrow> ds = [48]) \<and>
      d1 < 10 \<and> d2 < 10 \<and>
      \<bar>of_nat (100 * foldl (\<lambda>a c. 10 * a + (c - 48)) 0 ds + 10 * d1 + d2) / 100 - \<bar>s\<bar>\<bar> \<le> 1 / 200 \<and>
      (\<bar>of_nat (100 * foldl (\<lambda>a c. 10 * a + (c - 48)) 0 ds + 10 * d1 + d2) / 100 - \<bar>s\<bar>\<bar> = 1 / 200
         \<longrightarrow> even d2))"
proof (intro conjI impI)
  assume hq: "has_query_of q"
  have "list_all2 (outcome_for True) files (outcomes_in_order sv q language files w)"
    using outcomes_in_order_shape [of q files sv language w] hq by simp
  then show "\<forall>r \<in> set (results (fst (process_batch sv rid uid q language files w))).
         status r = COMPLETED \<longrightarrow>
           similarity_score r \<noteq> None \<and>
           justification r = map_option justify (similarity_score r)"
    using hq outcome_for_query
    by (simp add: process_batch_results sort_reverse_def)
next
  assume "float_0_7 < s"
  then show "justify s = msg_high_prefix @ format_2f s @ msg_high_suffix"
    by (simp add: justify_def)
next
  assume "s \<le> float_0_7 \<and> float_0_4 < s"
  then show "justify s = msg_moderate_prefix @ format_2f s @ msg_moderate_suffix"
    by (simp add: justify_def)
next
  assume "s \<le> float_0_4"
  then show "justify s = msg_low_prefix @ format_2f s @ msg_low_suffix"
    using float_literals(5) by (simp add: justify_def)
next
  show "justify float_0_7 = msg_moderate_prefix @ format_2f float_0_7 @ msg_moderate_suffix"
    using float_literals(5) by (simp add: justify_def)
next
  show "justify float_0_4 = msg_low_prefix @ format_2f float_0_4 @ msg_low_suffix"
    using float_literals(5) by (simp add: justify_def)
next
  show "float_0_7 = 6305039478318694 / 2 ^ 53" "\<bar>float_0_7 - 7 / 10\<bar> \<le> 1 / 2 ^ 54"
    "float_0_4 = 7205759403792794 / 2 ^ 54" "\<bar>float_0_4 - 4 / 10\<bar> \<le> 1 / 2 ^ 55"
    by (rule float_literals)+
next
  show "\<exists>ds d1 d2. format_2f s = (if s < 0 then [45] else []) @ ds @ [46, 48 + d1, 48 + d2] \<and>
      ds \<noteq> [] \<and> list_all (\<lambda>c. 48 \<le> c \<and> c \<le> 57) ds \<and> (hd ds = 48 \<longrightarrow> ds = [48]) \<and>
      d1 < 10 \<and> d2 < 10 \<and>
      \<bar>of_nat (100 * foldl (\<lambda>a c. 10 * a + (c - 48)) 0 ds + 10 * d1 + d2) / 100 - \<bar>s\<bar>\<bar> \<le> 1 / 200 \<and>
      (\<bar>of_nat (100 * foldl (\<lambda>a c. 10 * a + (c - 48)) 0 ds + 10 * d1 + d2) / 100 - \<bar>s\<bar>\<bar> = 1 / 200
         \<longrightarrow> even d2)"
    by (rule format_2f_shape)
qed

lemma format_2f_examples:
  "format_2f (6004799503160661 / 9007199254740992) = ascii ''0.67''"
  "format_2f (3 / 4) = ascii ''0.75''"
  "format_2f float_0_7 = ascii ''0.70''" "format_2f float_0_4 = ascii ''0.40''"
  "format_2f (1 / 8) = ascii ''0.12''" "format_2f (3 / 8) = ascii ''0.38''"
  "format_2f (1 / 2) = ascii ''0.50''" "format_2f 0 = ascii ''0.00''"
  "format_2f 1 = ascii ''1.00''" "format_2f (25 / 2) = ascii ''12.50''"
  "format_2f (- 1 / 8) = ascii ''-0.12''"
  "format_2f (3602879701896397 / 144115188075855872) = ascii ''0.03''"
  by (simp_all add: format_2f_def round_half_even_def Let_def ascii_def digits_small
        digits_large float_0_7_def float_0_4_def floor_numeral_div)

lemma truediv_counts:
  "truediv (Suc (Suc (Suc (Suc (Suc (Suc (Suc 0))))))) (Suc (Suc (Suc (Suc (Suc (Suc (Suc (Suc (Suc (Suc 0)))))))))) = 3152519739159347 / 4503599627370496"
  "truediv (Suc (Suc (Suc (Suc (Suc (Suc (Suc (Suc (Suc (Suc 0)))))))))) (Suc (Suc (Suc (Suc (Suc (Suc (Suc (Suc (Suc (Suc 0)))))))))) = 1"
  "truediv (Suc 0) (Suc (Suc (Suc (Suc (Suc (Suc (Suc (Suc (Suc (Suc (Suc (Suc (Suc (Suc (Suc (Suc (Suc (Suc (Suc (Suc (Suc (Suc (Suc (Suc (Suc (Suc (Suc (Suc (Suc (Suc (Suc (Suc (Suc (Suc (Suc (Suc (Suc (Suc (Suc (Suc 0)))))))))))))))))))))))))))))))))))))))) =
     3602879701896397 / 144115188075855872"
proof -
  have "truediv 10 10 = 1"
    by (simp add: float_defs Let_def)
  with truediv_examples(2,3) show
    "truediv (Suc (Suc (Suc (Suc (Suc (Suc (Suc 0))))))) (Suc (Suc (Suc (Suc (Suc (Suc (Suc (Suc (Suc (Suc 0)))))))))) = 3152519739159347 / 4503599627370496"
    "truediv (Suc (Suc (Suc (Suc (Suc (Suc (Suc (Suc (Suc (Suc 0)))))))))) (Suc (Suc (Suc (Suc (Suc (Suc (Suc (Suc (Suc (Suc 0)))))))))) = 1"
    "truediv (Suc 0) (Suc (Suc (Suc (Suc (Suc (Suc (Suc (Suc (Suc (Suc (Suc (Suc (Suc (Suc (Suc (Suc (Suc (Suc (Suc (Suc (Suc (Suc (Suc (Suc (Suc (Suc (Suc (Suc (Suc (Suc (Suc (Suc (Suc (Suc (Suc (Suc (Suc (Suc (Suc (Suc 0)))))))))))))))))))))))))))))))))))))))) =
       3602879701896397 / 144115188075855872"
    by (simp_all add: eval_nat_numeral)
qed

lemma justify_examples:
  "justify (6004799503160661 / 9007199254740992) =
     ascii ''Documento moderadamente relevante (score: 0.67) - possui algumas informa'' @
        [231, 245] @ ascii ''es relacionadas''"
  "justify (1 / 2) =
     ascii ''Documento moderadamente relevante (score: 0.50) - possui algumas informa'' @
        [231, 245] @ ascii ''es relacionadas''"
  "justify 0 =
     ascii ''Documento pouco relevante (score: 0.00) - poucas informa'' @ [231, 245] @
        ascii ''es relacionadas '' @ [224] @ ascii '' query''"
  "justify 1 =
     ascii ''Documento altamente relevante (score: 1.00) - cont'' @ [233] @ ascii ''m informa'' @ [231, 245] @
        ascii ''es relacionadas '' @ [224] @ ascii '' query''"
  "justify (3152519739159347 / 4503599627370496) =
     ascii ''Documento moderadamente relevante (score: 0.70) - possui algumas informa'' @
        [231, 245] @ ascii ''es relacionadas''"
  "justify (3602879701896397 / 144115188075855872) =
     ascii ''Documento pouco relevante (score: 0.03) - poucas informa'' @ [231, 245] @
        ascii ''es relacionadas '' @ [224] @ ascii '' query''"
  by (simp_all add: justify_def float_0_7_def float_0_4_def msg_high_prefix_def
        msg_high_suffix_def msg_moderate_prefix_def msg_moderate_suffix_def msg_low_prefix_def
        msg_low_suffix_def format_2f_examples [unfolded float_0_7_def float_0_4_def]
        ascii_def)

lemma justification_demo:
  "map justification (results (fst (process_batch demo_services (ascii ''r1'') (ascii ''u1'')
       (Some (ascii ''red apple'')) (ascii ''pt'') demo_files 0))) =
     [Some (justify (6004799503160661 / 9007199254740992)), Some (justify (1 / 2)),
      Some (justify 0), None]"
  "map justification (results (fst (process_batch demo_services (ascii ''r1'') (ascii ''u1'')
       (Some (ascii ''a b c d e f g h i j'')) (ascii ''pt'')
       [demo_file ''e.txt'' ''text/plain'' ''a b c d e f g'',
        demo_file ''f.txt'' ''text/plain'' ''J I H G F E D C B A''] 0))) =
     [Some (justify 1), Some (justify (3152519739159347 / 4503599627370496))]"
  "map justification (results (fst (process_batch demo_services (ascii ''r1'') (ascii ''u1'')
       (Some (ascii ''a b c d e f g h i j k l m n o p q r s t u v w x y z 0 1 2 3 4 5 6 7 8 9 + - * /''))
       (ascii ''pt'') [demo_file ''g.txt'' ''text/plain'' ''z''] 0))) =
     [Some (justify (3602879701896397 / 144115188075855872))]"
  by (simp_all add: process_batch_results sort_reverse_def outcomes_in_order_def
       batch_defs demo_defs truediv_counts)

theorem justification_bands_witness:
  "has_query_of (Some (ascii ''red apple'')) \<and>
   map justification (results (fst (process_batch demo_services (ascii ''r1'') (ascii ''u1'')
       (Some (ascii ''red apple'')) (ascii ''pt'') demo_files 0))) =
     [Some (ascii ''Documento moderadamente relevante (score: 0.67) - possui algumas informa'' @
        [231, 245] @ ascii ''es relacionadas''),
      Some (ascii ''Documento moderadamente relevante (score: 0.50) - possui algumas informa'' @
        [231, 245] @ ascii ''es relacionadas''),
      Some (ascii ''Documento pouco relevante (score: 0.00) - poucas informa'' @ [231, 245] @
        ascii ''es relacionadas '' @ [224] @ ascii '' query''),
      None] \<and>
   map justification (results (fst (process_batch demo_services (ascii ''r1'') (ascii ''u1'')
       (Some (ascii ''a b c d e f g h i j'')) (ascii ''pt'')
       [demo_file ''e.txt'' ''text/plain'' ''a b c d e f g'',
        demo_file ''f.txt'' ''text/plain'' ''J I H G F E D C B A''] 0))) =
     [Some (ascii ''Documento altamente relevante (score: 1.00) - cont'' @ [233] @ ascii ''m informa'' @
        [231, 245] @ ascii ''es relacionadas '' @ [224] @ ascii '' query''),
      Some (ascii ''Documento moderadamente relevante (score: 0.70) - possui algumas informa'' @
        [231, 245] @ ascii ''es relacionadas'')] \<and>
   map justification (results (fst (process_batch demo_services (ascii ''r1'') (ascii ''u1'')
       (Some (ascii ''a b c d e f g h i j k l m n o p q r s t u v w x y z 0 1 2 3 4 5 6 7 8 9 + - * /''))
       (ascii ''pt'') [demo_file ''g.txt'' ''text/plain'' ''z''] 0))) =
     [Some (ascii ''Documento pouco relevante (score: 0.03) - poucas informa'' @ [231, 245] @
        ascii ''es relacionadas '' @ [224] @ ascii '' query'')] \<and>
   justify (3 / 4) = msg_high_prefix @ ascii ''0.75'' @ msg_high_suffix \<and>
   justify (25 / 2) = msg_high_prefix @ ascii ''12.50'' @ msg_high_suffix \<and>
   justify (3 / 8) = msg_low_prefix @ ascii ''0.38'' @ msg_low_suffix \<and>
   justify (- 1 / 8) = msg_low_prefix @ ascii ''-0.12'' @ msg_low_suffix \<and>
   justify float_0_7 = msg_moderate_prefix @ ascii ''0.70'' @ msg_moderate_suffix \<and>
   justify float_0_4 = msg_low_prefix @ ascii ''0.40'' @ msg_low_suffix"
proof -
  have hq: "has_query_of (Some (ascii ''red apple''))"
    by (simp add: has_query_of_def strip_def isspace_def ascii_def)
  have j1: "map justification (results (fst (process_batch demo_services (ascii ''r1'') (ascii ''u1'')
       (Some (ascii ''red apple'')) (ascii ''pt'') demo_files 0))) =
     [Some (ascii ''Documento moderadamente relevante (score: 0.67) - possui algumas informa'' @
        [231, 245] @ ascii ''es relacionadas''),
      Some (ascii ''Documento moderadamente relevante (score: 0.50) - possui algumas informa'' @
        [231, 245] @ ascii ''es relacionadas''),
      Some (ascii ''Documento pouco relevante (score: 0.00) - poucas informa'' @ [231, 245] @
        ascii ''es relacionadas '' @ [224] @ ascii '' query''),
      None]"
    by (simp only: justification_demo justify_examples)
  have j2: "map justification (results (fst (process_batch demo_services (ascii ''r1'') (ascii ''u1'')
       (Some (ascii ''a b c d e f g h i j'')) (ascii ''pt'')
       [demo_file ''e.txt'' ''text/plain'' ''a b c d e f g'',
        demo_file ''f.txt'' ''text/plain'' ''J I H G F E D C B A''] 0))) =
     [Some (ascii ''Documento altamente relevante (score: 1.00) - cont'' @ [233] @ ascii ''m informa'' @
        [231, 245] @ ascii ''es relacionadas '' @ [224] @ ascii '' query''),
      Some (ascii ''Documento moderadamente relevante (score: 0.70) - possui algumas informa'' @
        [231, 245] @ ascii ''es relacionadas'')]"
    by (simp only: justification_demo justify_examples)
  have j3: "map justification (results (fst (process_batch demo_services (ascii ''r1'') (ascii ''u1'')
       (Some (ascii ''a b c d e f g h i j k l m n o p q r s t u v w x y z 0 1 2 3 4 5 6 7 8 9 + - * /''))
       (ascii ''pt'') [demo_file ''g.txt'' ''text/plain'' ''z''] 0))) =
     [Some (ascii ''Documento pouco relevante (score: 0.03) - poucas informa'' @ [231, 245] @
        ascii ''es relacionadas '' @ [224] @ ascii '' query'')]"
    by (simp only: justification_demo justify_examples)
  have hi: "float_0_7 < 3 / 4" "float_0_7 < 25 / 2"
    and lo: "3 / 8 \<le> float_0_4" "- 1 / 8 \<le> float_0_4"
    by (simp_all add: float_0_7_def float_0_4_def)
  have "justify (3 / 4) = msg_high_prefix @ format_2f (3 / 4) @ msg_high_suffix"
    using justification_bands [where s = "3 / 4" and q = "Some (ascii ''red apple'')"
        and sv = demo_services and rid = "ascii ''r1''" and uid = "ascii ''u1''"
        and language = "ascii ''pt''" and files = demo_files and w = "0::nat"] hi(1)
    by blast
  then have e1: "justify (3 / 4) = msg_high_prefix @ ascii ''0.75'' @ msg_high_suffix"
    by (simp only: format_2f_examples)
  have "justify (25 / 2) = msg_high_prefix @ format_2f (25 / 2) @ msg_high_suffix"
    using justification_bands [where s = "25 / 2" and q = "Some (ascii ''red apple'')"
        and sv = demo_services and rid = "ascii ''r1''" and uid = "ascii ''u1''"
        and language = "ascii ''pt''" and files = demo_files and w = "0::nat"] hi(2)
    by blast
  then have e2: "justify (25 / 2) = msg_high_prefix @ ascii ''12.50'' @ msg_high_suffix"
    by (simp only: format_2f_examples)
  have "justify (3 / 8) = msg_low_prefix @ format_2f (3 / 8) @ msg_low_suffix"
    using justification_bands [where s = "3 / 8" and q = "Some (ascii ''red apple'')"
        and sv = demo_services and rid = "ascii ''r1''" and uid = "ascii ''u1''"
        and language = "ascii ''pt''" and files = demo_files and w = "0::nat"] lo(1)
    by blast
  then have e3: "justify (3 / 8) = msg_low_prefix @ ascii ''0.38'' @ msg_low_suffix"
    by (simp only: format_2f_examples)
  have "justify (- 1 / 8) = msg_low_prefix @ format_2f (- 1 / 8) @ msg_low_suffix"
    using justification_bands [where s = "- 1 / 8" and q = "Some (ascii ''red apple'')"
        and sv = demo_services and rid = "ascii ''r1''" and uid = "ascii ''u1''"
        and language = "ascii ''pt''" and files = demo_files and w = "0::nat"] lo(2)
    by blast
  then have e4: "justify (- 1 / 8) = msg_low_prefix @ ascii ''-0.12'' @ msg_low_suffix"
    by (simp only: format_2f_examples)
  have "justify float_0_7 = msg_moderate_prefix @ format_2f float_0_7 @ msg_moderate_suffix"
    "justify float_0_4 = msg_low_prefix @ format_2f float_0_4 @ msg_low_suffix"
    using justification_bands [where s = "0" and q = "Some (ascii ''red apple'')"
        and sv = demo_services and rid = "ascii ''r1''" and uid = "ascii ''u1''"
        and language = "ascii ''pt''" and files = demo_files and w = "0::nat"]
    by blast+
  then have e5: "justify float_0_7 = msg_moderate_prefix @ ascii ''0.70'' @ msg_moderate_suffix"
    and e6: "justify float_0_4 = msg_low_prefix @ ascii ''0.40'' @ msg_low_suffix"
    by (simp_all only: format_2f_examples)
  from hq j1 j2 j3 e1 e2 e3 e4 e5 e6 show ?thesis
    by blast
qed

section \<open>Properties of the text extractor\<close>

lemma extract_result_fields:
  "ocr_text (fst (extract_text_from_document sv content dt language w)) =
     (case extract_body sv content dt language of Inl e \<Rightarrow> [] | Inr (t, c) \<Rightarrow> t)"
  "ocr_confidence (fst (extract_text_from_document sv content dt language w)) =
     (case extract_body sv content dt language of Inl e \<Rightarrow> 0 | Inr (t, c) \<Rightarrow> c)"
  "ocr_processing_time (fst (extract_text_from_document sv content dt language w)) =
     fst (time_now sv (snd (time_now sv w))) - fst (time_now sv w)"
  "snd (extract_text_from_document sv content dt language w) =
     snd (time_now sv (snd (time_now sv w)))"
  by (simp_all add: extract_text_from_document_def Let_def split: prod.splits sum.splits)

lemma internal_failure_body:
  assumes "internal_failure sv content dt language"
  shows "case extract_body sv content dt language of
           Inl e \<Rightarrow> True | Inr (t, c) \<Rightarrow> t = [] \<and> c = 0"
  using assms
  by (auto simp: internal_failure_def extract_body_def extract_from_pdf_def
        extract_from_image_def isl_def split: sum.splits if_splits)

text \<open>
  Claim C5. \<open>extract_text_from_document\<close> returns a result for every input: the
  function has no exception among its values, every raising call being inside its
  \<open>try\<close>. Whenever one of the internal failures occurs the result has empty text
  and confidence 0; the elapsed time is the difference of the two clock readings.
\<close>

theorem extract_never_raises:
  "(internal_failure sv content dt language \<longrightarrow>
      ocr_text (fst (extract_text_from_document sv content dt language w)) = [] \<and>
      ocr_confidence (fst (extract_text_from_document sv content dt language w)) = 0) \<and>
   ocr_processing_time (fst (extract_text_from_document sv content dt language w)) =
     fst (time_now sv (snd (time_now sv w))) - fst (time_now sv w) \<and>
   snd (extract_text_from_document sv content dt language w) =
     snd (time_now sv (snd (time_now sv w)))"
proof (intro conjI impI)
  assume f: "internal_failure sv content dt language"
  from internal_failure_body [OF f]
  show "ocr_text (fst (extract_text_from_document sv content dt language w)) = []"
    and "ocr_confidence (fst (extract_text_from_document sv content dt language w)) = 0"
    by (auto simp: extract_result_fields split: sum.splits)
qed (simp_all add: extract_result_fields)

lemmas ocr_defs = extract_body_def extract_from_pdf_def extract_from_image_def page_result_def
  demo_services_def demo_page_def strip_def isspace_def seq_len_def second_ok_def is_cont_def
  ascii_def Let_def

theorem extract_never_raises_witness:
  "internal_failure demo_services [255] TEXT (ascii ''por'') \<and>
   ocr_text (fst (extract_text_from_document demo_services [255] TEXT (ascii ''por'') 0)) = [] \<and>
   ocr_confidence (fst (extract_text_from_document demo_services [255] TEXT (ascii ''por'') 0)) = 0 \<and>
   ocr_processing_time (fst (extract_text_from_document demo_services [255] TEXT (ascii ''por'') 0)) = 1 \<and>
   internal_failure demo_services [] IMAGE (ascii ''por'') \<and>
   ocr_confidence (fst (extract_text_from_document demo_services [] IMAGE (ascii ''por'') 0)) = 0"
proof -
  have f1: "internal_failure demo_services [255] TEXT (ascii ''por'')"
    by (simp add: internal_failure_def ocr_defs)
  have f2: "internal_failure demo_services [] IMAGE (ascii ''por'')"
    by (simp add: internal_failure_def ocr_defs)
  have t: "fst (time_now demo_services (snd (time_now demo_services 0))) -
             fst (time_now demo_services 0) = 1"
    by (simp add: demo_services_def)
  show ?thesis
    using f1 f2 t
      extract_never_raises [of demo_services "[255]" TEXT "ascii ''por''" 0]
      extract_never_raises [of demo_services "[]" IMAGE "ascii ''por''" 0]
    by simp
qed

text \<open>
  Claim C6 says that a TEXT payload that is not valid UTF-8 is decoded with replacement
  and has confidence 1.0. The source decodes with \<open>file_data.decode('utf-8')\<close>, which is
  strict: on the one-byte payload FF the decoding raises, the handler of
  \<open>extract_text_from_document\<close> catches it, and the result has empty text and a
  confidence that is not 1.
\<close>

theorem text_kind_counterexample:
  "b64decode demo_services [255] = Inr [0xFF] \<and>
   ocr_text (fst (extract_text_from_document demo_services [255] TEXT (ascii ''por'') 0)) = [] \<and>
   ocr_confidence (fst (extract_text_from_document demo_services [255] TEXT (ascii ''por'') 0)) \<noteq> 1"
  by (simp add: extract_result_fields ocr_defs)

text \<open>
  Claim C6, amended. For a payload of a kind other than PDF and IMAGE: when the bytes are
  valid UTF-8 the text is their decoding and the confidence is exactly 1; when they are
  not, the text is empty and the confidence is 0.
\<close>

theorem text_kind_strict_decoding:
  assumes "b64decode sv content = Inr file_data" and "dt \<noteq> PDF" and "dt \<noteq> IMAGE"
  shows "(case utf8_decode Strict file_data of
            Inr decoded \<Rightarrow>
              ocr_text (fst (extract_text_from_document sv content dt language w)) = decoded \<and>
              ocr_confidence (fst (extract_text_from_document sv content dt language w)) = 1
          | Inl e \<Rightarrow>
              ocr_text (fst (extract_text_from_document sv content dt language w)) = [] \<and>
              ocr_confidence (fst (extract_text_from_document sv content dt language w)) = 0)"
  using assms
  by (simp add: extract_result_fields extract_body_def split: sum.splits)

theorem text_kind_strict_decoding_witness:
  "b64decode demo_services [195, 169, 65] = Inr [0xC3, 0xA9, 0x41] \<and>
   utf8_decode Strict [0xC3, 0xA9, 0x41] = Inr [233, 65] \<and>
   ocr_text (fst (extract_text_from_document demo_services [195, 169, 65] TEXT (ascii ''por'') 0)) = [233, 65] \<and>
   ocr_confidence (fst (extract_text_from_document demo_services [195, 169, 65] TEXT (ascii ''por'') 0)) = 1"
proof -
  have b: "b64decode demo_services [195, 169, 65] = Inr [0xC3, 0xA9, 0x41]"
    by (simp add: demo_services_def)
  have d: "utf8_decode Strict [0xC3, 0xA9, 0x41] = Inr [233, 65]"
    by (simp add: seq_len_def second_ok_def is_cont_def)
  show ?thesis
    using b d text_kind_strict_decoding [OF b, of TEXT "ascii ''por''" 0]
    by simp
qed

lemma pdf_pages_all_ok:
  assumes "\<forall>pg \<in> set pgs. \<not> isl (page_result sv language pg)"
  shows "pdf_pages sv language pgs (all_text, tot, n) =
           Inr (all_text @ map (\<lambda>pg. fst (projr (page_result sv language pg))) pgs,
                tot + sum_list (map (\<lambda>pg. snd (projr (page_result sv language pg))) pgs),
                n + length pgs)"
  using assms
proof (induction pgs arbitrary: all_text tot n)
  case Nil
  then show ?case by simp
next
  case (Cons pg pgs)
  from Cons.prems obtain t c where pr: "page_result sv language pg = Inr (t, c)"
    by (cases "page_result sv language pg") auto
  from Cons.prems have "\<forall>pg \<in> set pgs. \<not> isl (page_result sv language pg)"
    by simp
  from Cons.IH [OF this] show ?case
    by (simp add: pr add.assoc)
qed

lemma pdf_pages_some_fails:
  assumes "\<exists>pg \<in> set pgs. isl (page_result sv language pg)"
  shows "isl (pdf_pages sv language pgs acc)"
  using assms
proof (induction pgs arbitrary: acc)
  case Nil
  then show ?case by simp
next
  case (Cons pg pgs)
  obtain all_text tot n where acc: "acc = (all_text, tot, n)"
    by (cases acc)
  show ?case
  proof (cases "page_result sv language pg")
    case (Inl e)
    then show ?thesis by (simp add: acc)
  next
    case (Inr v)
    with Cons.prems have "\<exists>pg \<in> set pgs. isl (page_result sv language pg)"
      by simp
    from Cons.IH [OF this] Inr show ?thesis
      by (simp add: acc split: prod.splits)
  qed
qed

text \<open>
  Claim C7 says that a page that cannot be rasterized or recognized degrades only that
  page. The source has one \<open>try\<close> around the whole page loop of
  \<open>_extract_from_pdf\<close>: in a two-page document whose first page has a text layer and
  whose second page cannot be rendered, the whole extraction returns empty text with
  confidence 0.
\<close>

theorem pdf_counterexample:
  "fitz_open demo_services [0x41, 0x00] = Inr [demo_page 0x41, demo_page 0x00] \<and>
   page_result demo_services (ascii ''por'') (demo_page 0x41) = Inr ([65], 95 / 100) \<and>
   isl (page_result demo_services (ascii ''por'') (demo_page 0x00)) \<and>
   extract_from_pdf demo_services [0x41, 0x00] (ascii ''por'') = ([], 0)"
  by (simp add: ocr_defs)

text \<open>
  Claim C7, amended. For an opened PDF: if any page fails (its text layer cannot be
  read, or the layer is blank and the page cannot be rasterized or recognized), the
  extraction of the whole document returns empty text with confidence 0; if no page
  fails, the text is the page texts joined by a blank line, every page contributing its
  own, and the confidence is the mean of the page confidences, capped at 1, and 0 for a
  document with no page.
\<close>

theorem pdf_all_or_nothing:
  assumes "fitz_open sv file_data = Inr pgs"
  shows "((\<exists>pg \<in> set pgs. isl (page_result sv language pg)) \<longrightarrow>
            extract_from_pdf sv file_data language = ([], 0)) \<and>
         ((\<forall>pg \<in> set pgs. \<not> isl (page_result sv language pg)) \<longrightarrow>
            extract_from_pdf sv file_data language =
              (join [10, 10] (map (\<lambda>pg. fst (projr (page_result sv language pg))) pgs),
               min 1 (if pgs = [] then 0
                      else sum_list (map (\<lambda>pg. snd (projr (page_result sv language pg))) pgs) /
                           of_nat (length pgs))))"
proof (intro conjI impI)
  assume "\<exists>pg \<in> set pgs. isl (page_result sv language pg)"
  then have "isl (pdf_pages sv language pgs ([], 0, 0))"
    by (rule pdf_pages_some_fails)
  then show "extract_from_pdf sv file_data language = ([], 0)"
    using assms by (auto simp: extract_from_pdf_def isl_def)
next
  assume "\<forall>pg \<in> set pgs. \<not> isl (page_result sv language pg)"
  from pdf_pages_all_ok [OF this, of "[]" 0 0] assms
  show "extract_from_pdf sv file_data language =
              (join [10, 10] (map (\<lambda>pg. fst (projr (page_result sv language pg))) pgs),
               min 1 (if pgs = [] then 0
                      else sum_list (map (\<lambda>pg. snd (projr (page_result sv language pg))) pgs) /
                           of_nat (length pgs)))"
    by (simp add: extract_from_pdf_def ascii_def)
qed

theorem pdf_all_or_nothing_witness:
  "fitz_open demo_services [0x41, 0x01, 0x42] = Inr [demo_page 0x41, demo_page 0x01, demo_page 0x42] \<and>
   extract_from_pdf demo_services [0x41, 0x01, 0x42] (ascii ''por'') =
     ([65, 10, 10, 1, 10, 10, 66], 1901 / 3000) \<and>
   fitz_open demo_services [0x41, 0x00] = Inr [demo_page 0x41, demo_page 0x00] \<and>
   isl (page_result demo_services (ascii ''por'') (demo_page 0x00)) \<and>
   extract_from_pdf demo_services [0x41, 0x00] (ascii ''por'') = ([], 0)"
proof -
  have o1: "fitz_open demo_services [0x41, 0x01, 0x42] =
      Inr [demo_page 0x41, demo_page 0x01, demo_page 0x42]"
    by (simp add: demo_services_def)
  have o2: "fitz_open demo_services [0x41, 0x00] = Inr [demo_page 0x41, demo_page 0x00]"
    by (simp add: demo_services_def)
  have ok: "\<forall>pg \<in> set [demo_page 0x41, demo_page 0x01, demo_page 0x42].
      \<not> isl (page_result demo_services (ascii ''por'') pg)"
    by (simp add: ocr_defs)
  have bad: "isl (page_result demo_services (ascii ''por'') (demo_page 0x00))"
    by (simp add: ocr_defs)
  have v: "(join [10, 10] (map (\<lambda>pg. fst (projr (page_result demo_services (ascii ''por'') pg)))
              [demo_page 0x41, demo_page 0x01, demo_page 0x42]),
            min 1 (sum_list (map (\<lambda>pg. snd (projr (page_result demo_services (ascii ''por'') pg)))
              [demo_page 0x41, demo_page 0x01, demo_page 0x42]) / 3)) =
           ([65, 10, 10, 1, 10, 10, 66], 1901 / 3000 :: rat)"
    by (simp add: ocr_defs)
  show ?thesis
    using o1 o2 ok bad v
      pdf_all_or_nothing [OF o1, of "ascii ''por''"]
      pdf_all_or_nothing [OF o2, of "ascii ''por''"]
    by simp
qed

section \<open>Properties of the text analyzer\<close>

lemma overlap_counts:
  fixes Q T :: "'a set"
  assumes "finite Q"
  shows "card (Q \<inter> T) \<le> max (max (card Q) (card T)) 1"
proof -
  have "card (Q \<inter> T) \<le> card Q"
    using assms by (simp add: card_mono)
  then show ?thesis
    by simp
qed

lemma word_overlap_value:
  "word_overlap sv q t =
     truediv (card (set (split (str_lower sv q)) \<inter> set (split (str_lower sv t))))
       (max (max (card (set (split (str_lower sv q)))) (card (set (split (str_lower sv t))))) 1)"
  using truediv_unit_interval [OF overlap_counts
      [of "set (split (str_lower sv q))" "set (split (str_lower sv t))"]]
  by (simp add: word_overlap_def Let_def min_def)

lemma word_overlap_bounds: "0 \<le> word_overlap sv q t \<and> word_overlap sv q t \<le> 1"
  unfolding word_overlap_value
  by (rule truediv_unit_interval [OF overlap_counts]) simp

lemma word_overlap_rounding:
  fixes sv :: "'w services"
  defines "n \<equiv> \<lambda>q t. card (set (split (str_lower sv q)) \<inter> set (split (str_lower sv t)))"
    and "d \<equiv> \<lambda>q t. max (max (card (set (split (str_lower sv q))))
                            (card (set (split (str_lower sv t))))) 1"
  shows "\<bar>word_overlap sv q t - of_nat (n q t) / of_nat (d q t)\<bar> \<le>
           (of_nat (n q t) / of_nat (d q t)) / 2 ^ 53 \<and>
         (\<exists>m k. word_overlap sv q t = of_int m / 2 ^ k \<and> (m = 0 \<or> 2 ^ 52 \<le> m) \<and> m \<le> 2 ^ 53 \<and>
            \<bar>word_overlap sv q t - of_nat (n q t) / of_nat (d q t)\<bar> \<le> 1 / 2 ^ (k + 1) \<and>
            (\<bar>word_overlap sv q t - of_nat (n q t) / of_nat (d q t)\<bar> = 1 / 2 ^ (k + 1) \<longrightarrow>
               even m))"
proof (cases "n q t = 0")
  case True
  then have "word_overlap sv q t = 0"
    by (simp add: word_overlap_value n_def truediv_zero)
  moreover have "(0 :: rat) = of_int 0 / 2 ^ 0"
    by simp
  ultimately show ?thesis
    using True by (intro conjI exI [of _ 0] exI [of _ "0::nat"]) simp_all
next
  case False
  have le: "n q t \<le> d q t"
    unfolding n_def d_def by (rule overlap_counts) simp
  from False have pos: "0 < n q t"
    by simp
  from truediv_fraction [OF pos le] obtain m k where
    td: "truediv (n q t) (d q t) = of_int m / 2 ^ (52 + k)"
    and m: "2 ^ 52 \<le> m" "m \<le> 2 ^ 53"
    and rel: "\<bar>truediv (n q t) (d q t) - of_nat (n q t) / of_nat (d q t)\<bar> \<le>
                (of_nat (n q t) / of_nat (d q t)) / 2 ^ 53"
    and half: "\<bar>truediv (n q t) (d q t) - of_nat (n q t) / of_nat (d q t)\<bar> \<le>
                1 / 2 ^ (53 + k)"
    and tie: "\<bar>truediv (n q t) (d q t) - of_nat (n q t) / of_nat (d q t)\<bar> =
                1 / 2 ^ (53 + k) \<longrightarrow> even m"
    by blast
  have w: "word_overlap sv q t = truediv (n q t) (d q t)"
    by (simp add: word_overlap_value n_def d_def)
  from td m rel half tie show ?thesis
    unfolding w by (intro conjI exI [of _ m] exI [of _ "52 + k"] disjI2) simp_all
qed

text \<open>
  Claim C9. When the TF-IDF path raises, \<open>calculate_similarity\<close> returns, for each
  candidate text in input order, the word-overlap ratio: the number of words common to
  the query and the text, divided by the largest of the two word counts and 1, as the
  float division computes it. There is one score per candidate, each between 0 and 1.
  Each score is the binary64 nearest to the exact ratio: it is 0 or has a normalised
  significand of 53 bits (between 2 to the power 52 and 2 to the power 53), it differs
  from the ratio by at most half a unit of its last bit, which is at most the ratio times
  2 to the power -53, and when it is exactly half a unit away its significand is even.
\<close>

theorem similarity_fallback:
  assumes "tfidf_similarity sv q texts = Inl e"
  shows "calculate_similarity sv q texts = map (word_overlap sv q) texts \<and>
         length (calculate_similarity sv q texts) = length texts \<and>
         (\<forall>s \<in> set (calculate_similarity sv q texts). 0 \<le> s \<and> s \<le> 1) \<and>
         (\<forall>t. \<bar>word_overlap sv q t -
                 of_nat (card (set (split (str_lower sv q)) \<inter> set (split (str_lower sv t)))) /
                 of_nat (max (max (card (set (split (str_lower sv q))))
                                  (card (set (split (str_lower sv t))))) 1)\<bar> \<le>
               (of_nat (card (set (split (str_lower sv q)) \<inter> set (split (str_lower sv t)))) /
                of_nat (max (max (card (set (split (str_lower sv q))))
                                 (card (set (split (str_lower sv t))))) 1)) / 2 ^ 53 \<and>
              (\<exists>m k. word_overlap sv q t = of_int m / 2 ^ k \<and> (m = 0 \<or> 2 ^ 52 \<le> m) \<and> m \<le> 2 ^ 53 \<and>
                 \<bar>word_overlap sv q t -
                   of_nat (card (set (split (str_lower sv q)) \<inter> set (split (str_lower sv t)))) /
                   of_nat (max (max (card (set (split (str_lower sv q))))
                                    (card (set (split (str_lower sv t))))) 1)\<bar> \<le>
                 1 / 2 ^ (k + 1) \<and>
                 (\<bar>word_overlap sv q t -
                    of_nat (card (set (split (str_lower sv q)) \<inter> set (split (str_lower sv t)))) /
                    of_nat (max (max (card (set (split (str_lower sv q))))
                                     (card (set (split (str_lower sv t))))) 1)\<bar> =
                  1 / 2 ^ (k + 1) \<longrightarrow> even m)))"
proof (intro conjI allI)
  show eq: "calculate_similarity sv q texts = map (word_overlap sv q) texts"
    using assms by (simp add: calculate_similarity_def)
  then show "length (calculate_similarity sv q texts) = length texts"
    by simp
  show "\<forall>s \<in> set (calculate_similarity sv q texts). 0 \<le> s \<and> s \<le> 1"
    unfolding eq using word_overlap_bounds by auto
qed (rule word_overlap_rounding [THEN conjunct1], rule word_overlap_rounding [THEN conjunct2])

theorem similarity_fallback_witness:
  "tfidf_similarity demo_services (ascii ''Red apple'')
      [ascii ''green pear'', ascii ''red apple pie'', ascii ''an APPLE'', []] =
     Inl (ExternalError (ascii ''No module named sklearn'')) \<and>
   calculate_similarity demo_services (ascii ''Red apple'')
      [ascii ''green pear'', ascii ''red apple pie'', ascii ''an APPLE'', []] =
     [0, 6004799503160661 / 9007199254740992, 1 / 2, 0]"
proof -
  have f: "tfidf_similarity demo_services (ascii ''Red apple'')
      [ascii ''green pear'', ascii ''red apple pie'', ascii ''an APPLE'', []] =
     Inl (ExternalError (ascii ''No module named sklearn''))"
    by (simp add: demo_services_def)
  have t: "truediv (Suc (Suc 0)) (Suc (Suc (Suc 0))) = 6004799503160661 / 9007199254740992"
    "truediv (Suc 0) (Suc (Suc 0)) = 1 / 2"
    using truediv_examples by (simp_all add: numeral_2_eq_2 numeral_3_eq_3)
  have v: "map (word_overlap demo_services (ascii ''Red apple''))
      [ascii ''green pear'', ascii ''red apple pie'', ascii ''an APPLE'', []] =
     [0, 6004799503160661 / 9007199254740992, 1 / 2, 0]"
    by (simp add: word_overlap_def demo_services_def split_def isspace_def ascii_def Let_def
          truediv_zero t)
  have "calculate_similarity demo_services (ascii ''Red apple'')
      [ascii ''green pear'', ascii ''red apple pie'', ascii ''an APPLE'', []] =
     map (word_overlap demo_services (ascii ''Red apple''))
      [ascii ''green pear'', ascii ''red apple pie'', ascii ''an APPLE'', []]"
    by (rule conjunct1 [OF similarity_fallback [OF f]])
  with f v show ?thesis
    by (simp only: simp_thms)
qed


section \<open>Properties of the information extractor\<close>

lemma distinct_list_of_set: "distinct (list_of_set h xs)"
  by (simp add: list_of_set_def)

lemma set_list_of_set: "set (list_of_set h xs) = set xs"
  by (simp add: list_of_set_def)

lemma findall_each_matches:
  "findall_each findall ic ps text acc = Inr out \<Longrightarrow>
     set out = set acc \<union> (\<Union>p \<in> set ps. case findall p ic text of Inl e \<Rightarrow> {} | Inr ms \<Rightarrow> set ms)"
  by (induction ps arbitrary: acc) (auto split: sum.splits)

text \<open>
  Claim C10. For every text, every regular-expression engine and every iteration order
  of Python's sets, the lists returned by the extractors of e-mails, telephone numbers,
  URLs and dates have no duplicate: each ends with \<open>list(set(...))\<close>, or returns the
  empty list after an exception.
\<close>

theorem extractors_no_duplicates:
  "distinct (extract_emails findall h text) \<and>
   distinct (extract_phone_numbers findall h text) \<and>
   distinct (extract_urls findall h text) \<and>
   distinct (extract_dates findall h text)"
  by (simp add: extract_emails_def extract_phone_numbers_def extract_urls_def
        extract_dates_def distinct_list_of_set split: sum.splits)

lemma extractors_demo:
  "extract_emails demo_findall length (ascii ''a@b.co x@y.org a@b.co z'') =
     [ascii ''a@b.co'', ascii ''x@y.org'']"
  "extract_phone_numbers demo_findall length (ascii ''1199998888 call 1199998888'') =
     [ascii ''1199998888'']"
  by (simp_all add: extract_emails_def extract_phone_numbers_def demo_findall_def
        list_of_set_def split_def isspace_def ascii_def)

section \<open>Properties of keyword extraction\<close>

lemmas kw_defs = extract_keywords_def filtered_words_def match_len_def is_boundary_def
  in_class_def demo_word_char_def demo_services_def Counter_def most_common_def
  sort_reverse_def stop_words_def ascii_def Let_def

lemma first_occurrences_set [simp]: "set (first_occurrences ws) = set ws"
  by (simp add: first_occurrences_def)

lemma first_occurrences_distinct [simp]: "distinct (first_occurrences ws)"
  by (simp add: first_occurrences_def)

lemma first_occurrences_snoc:
  "first_occurrences (ws @ [w]) =
     (if w \<in> set ws then first_occurrences ws else first_occurrences ws @ [w])"
  by (simp add: first_occurrences_def)

lemma counter_add_map:
  assumes "distinct ds"
  shows "counter_add w (map (\<lambda>x. (x, f x)) ds) =
           (if w \<in> set ds then map (\<lambda>x. (x, if x = w then f x + 1 else f x)) ds
            else map (\<lambda>x. (x, f x)) ds @ [(w, 1)])"
  using assms by (induction ds) auto

lemma Counter_snoc: "Counter (ws @ [w]) = counter_add w (Counter ws)"
  by (simp add: Counter_def)

lemma Counter_eq:
  "Counter ws = map (\<lambda>w. (w, count_list ws w)) (first_occurrences ws)"
proof (induction ws rule: rev_induct)
  case Nil
  then show ?case by (simp add: Counter_def first_occurrences_def)
next
  case (snoc w ws)
  show ?case
  proof (cases "w \<in> set ws")
    case True
    then show ?thesis
      by (simp add: Counter_snoc snoc.IH counter_add_map first_occurrences_snoc)
  next
    case False
    then have "count_list ws w = 0"
      by (simp add: count_list_0_iff)
    with False show ?thesis
      by (auto simp: Counter_snoc snoc.IH counter_add_map first_occurrences_snoc)
  qed
qed

lemma insort_key_map:
  "insort_key k (g x) (map g ys) = map g (insort_key (\<lambda>y. k (g y)) x ys)"
  by (induction ys) auto

lemma sort_key_map: "sort_key k (map g xs) = map g (sort_key (\<lambda>y. k (g y)) xs)"
  by (induction xs) (auto simp: insort_key_map)

lemma sort_reverse_map:
  "sort_reverse k (map g xs) = map g (sort_reverse (\<lambda>y. k (g y)) xs)"
  by (simp add: sort_reverse_def sort_key_map rev_map)

lemma extract_keywords_eq:
  "extract_keywords sv wc text k =
     (if k \<le> 0 then []
      else take (nat k) (sort_reverse (count_list (filtered_words sv wc text))
                           (first_occurrences (filtered_words sv wc text))))"
  by (simp add: extract_keywords_def most_common_def Counter_eq sort_reverse_map
        take_map comp_def)

lemma match_len_range:
  assumes "match_len wc prev rest = Some n"
  shows "3 \<le> n \<and> n \<le> length (takeWhile in_class rest)"
proof -
  define xs where "xs = rev [3 ..< Suc (length (takeWhile in_class rest))]"
  from assms have "find (\<lambda>n. is_boundary wc (Some (rest ! (n - 1))) (drop n rest)) xs = Some n"
    by (simp add: match_len_def xs_def split: if_splits)
  then obtain i where "i < length xs" and "n = xs ! i"
    by (auto simp: find_Some_iff)
  then have "n \<in> set xs"
    by simp
  then show ?thesis
    unfolding xs_def set_rev set_upt by simp
qed

lemma take_in_class:
  assumes "n \<le> length (takeWhile in_class rest)"
  shows "length (take n rest) = n \<and> list_all in_class (take n rest)"
proof -
  have "take n (takeWhile in_class rest @ dropWhile in_class rest) =
        take n (takeWhile in_class rest)"
    using assms by (simp del: takeWhile_dropWhile_id)
  then have eq: "take n rest = take n (takeWhile in_class rest)"
    by (simp only: takeWhile_dropWhile_id)
  have "\<forall>c \<in> set (take n (takeWhile in_class rest)). in_class c"
    by (meson in_set_takeD set_takeWhileD)
  with eq assms show ?thesis
    by (simp add: list_all_iff)
qed

lemma findall_words_tokens:
  "\<forall>w \<in> set (findall_words wc prev s). 3 \<le> length w \<and> list_all in_class w"
proof (induction wc prev s rule: findall_words.induct)
  case (1 wc prev)
  then show ?case by simp
next
  case (2 wc prev c cs)
  show ?case
  proof (cases "match_len wc prev (c # cs)")
    case None
    with 2 show ?thesis by simp
  next
    case (Some n)
    from match_len_range [OF Some] take_in_class [of n "c # cs"]
    have "3 \<le> length (take n (c # cs)) \<and> list_all in_class (take n (c # cs))"
      by simp
    with 2(2) [OF Some] Some show ?thesis
      by simp
  qed
qed

lemma filtered_words_tokens:
  "\<forall>w \<in> set (filtered_words sv wc text).
      4 \<le> length w \<and> w \<notin> stop_words \<and> list_all in_class w \<and>
      w \<in> set (findall_words wc None (str_lower sv text))"
  using findall_words_tokens [of wc None "str_lower sv text"]
  by (auto simp: filtered_words_def)

lemma sorted_desc_take_drop:
  assumes "sorted_wrt (\<lambda>a b. f b \<le> f a) xs"
  shows "\<forall>a \<in> set (take n xs). \<forall>b \<in> set (drop n xs). f b \<le> f a"
proof -
  have "sorted_wrt (\<lambda>a b. f b \<le> f a) (take n xs @ drop n xs)"
    using assms by simp
  then show ?thesis
    unfolding sorted_wrt_append by blast
qed

text \<open>
  Claim C8 says that tokens of length 3 are kept. The source filters the matches with
  \<open>len(word) > 3\<close>: in "sol sol casa" the pattern finds "sol" twice, "sol" is not a
  stop word, and the keywords are "casa" alone.
\<close>

theorem keywords_counterexample:
  "findall_words demo_word_char None (str_lower demo_services (ascii ''sol sol casa'')) =
     [ascii ''sol'', ascii ''sol'', ascii ''casa''] \<and>
   ascii ''sol'' \<notin> stop_words \<and>
   extract_keywords demo_services demo_word_char (ascii ''sol sol casa'') 10 = [ascii ''casa'']"
  by (simp add: kw_defs)

text \<open>
  Claim C8, amended. The counted tokens are the matches of the pattern in the lower-cased
  text (runs of three or more letters of the class between word boundaries) that are not
  stop words and have at least four characters. The result is the first \<open>k\<close> of the
  distinct tokens ordered by descending count, where tokens of equal count keep the order
  of their first occurrence; it is empty for \<open>k\<close> not positive. So the result has no
  duplicate, has \<open>min(k, number of distinct tokens)\<close> elements, is sorted by descending
  count, and no token left out has a higher count than a token returned.
\<close>

theorem keywords_top_k:
  fixes sv :: "'w services"
  defines "ws \<equiv> \<lambda>wc text. filtered_words sv wc text"
  shows
  "(\<forall>w \<in> set (ws wc text).
      4 \<le> length w \<and> w \<notin> stop_words \<and> list_all in_class w \<and>
      w \<in> set (findall_words wc None (str_lower sv text))) \<and>
   extract_keywords sv wc text k =
     (if k \<le> 0 then []
      else take (nat k) (sort_reverse (count_list (ws wc text)) (first_occurrences (ws wc text)))) \<and>
   set (extract_keywords sv wc text k) \<subseteq> set (ws wc text) \<and>
   distinct (extract_keywords sv wc text k) \<and>
   length (extract_keywords sv wc text k) = min (nat k) (card (set (ws wc text))) \<and>
   sorted_wrt (\<lambda>a b. count_list (ws wc text) b \<le> count_list (ws wc text) a)
     (extract_keywords sv wc text k) \<and>
   (\<forall>a \<in> set (extract_keywords sv wc text k).
      \<forall>b \<in> set (ws wc text) - set (extract_keywords sv wc text k).
        count_list (ws wc text) b \<le> count_list (ws wc text) a) \<and>
   (\<forall>c. filter (\<lambda>w. count_list (ws wc text) w = c)
          (sort_reverse (count_list (ws wc text)) (first_occurrences (ws wc text))) =
        filter (\<lambda>w. count_list (ws wc text) w = c) (first_occurrences (ws wc text)))"
proof -
  define W where "W = filtered_words sv wc text"
  define S where "S = sort_reverse (count_list W) (first_occurrences W)"
  define R where "R = extract_keywords sv wc text k"
  have R: "R = (if k \<le> 0 then [] else take (nat k) S)"
    by (simp add: R_def S_def W_def extract_keywords_eq)
  have mS: "mset S = mset (first_occurrences W)"
    by (simp add: S_def mset_sort_reverse)
  then have dS: "distinct S"
    by (metis first_occurrences_distinct mset_eq_imp_distinct_iff)
  from mS have sS: "set S = set W"
    by (metis first_occurrences_set set_mset_mset)
  from dS sS have lS: "length S = card (set W)"
    by (metis distinct_card)
  have srt: "sorted_wrt (\<lambda>a b. count_list W b \<le> count_list W a) S"
    unfolding S_def by (rule sort_reverse_sorted)
  have p1: "\<forall>w \<in> set W.
      4 \<le> length w \<and> w \<notin> stop_words \<and> list_all in_class w \<and>
      w \<in> set (findall_words wc None (str_lower sv text))"
    unfolding W_def by (rule filtered_words_tokens)
  have p3: "set R \<subseteq> set W"
    using sS by (auto simp: R dest: in_set_takeD)
  have p4: "distinct R"
    using dS by (simp add: R)
  have p5: "length R = min (nat k) (card (set W))"
    using lS by (simp add: R min.commute)
  have p6: "sorted_wrt (\<lambda>a b. count_list W b \<le> count_list W a) R"
    using srt by (simp add: R sorted_wrt_take)
  have p7: "\<forall>a \<in> set R. \<forall>b \<in> set W - set R. count_list W b \<le> count_list W a"
  proof (cases "k \<le> 0")
    case True
    then show ?thesis by (simp add: R)
  next
    case False
    have "set S = set (take (nat k) S) \<union> set (drop (nat k) S)"
      by (metis append_take_drop_id set_append)
    then have "set W - set (take (nat k) S) \<subseteq> set (drop (nat k) S)"
      using sS by blast
    with sorted_desc_take_drop [OF srt, of "nat k"] False show ?thesis
      by (auto simp: R)
  qed
  have p8: "\<forall>c. filter (\<lambda>w. count_list W w = c) S =
        filter (\<lambda>w. count_list W w = c) (first_occurrences W)"
    unfolding S_def by (simp add: sort_reverse_stable)
  from p1 R p3 p4 p5 p6 p7 p8 show ?thesis
    unfolding ws_def W_def [symmetric] R_def [symmetric] S_def [symmetric]
    by blast
qed

theorem keywords_top_k_witness:
  "filtered_words demo_services demo_word_char
       (ascii ''Casa mesa, casa; Prazo mesa prazo3 para lua'') =
     [ascii ''casa'', ascii ''mesa'', ascii ''casa'', ascii ''prazo'', ascii ''mesa''] \<and>
   extract_keywords demo_services demo_word_char
       (ascii ''Casa mesa, casa; Prazo mesa prazo3 para lua'') 2 =
     [ascii ''casa'', ascii ''mesa''] \<and>
   distinct (extract_keywords demo_services demo_word_char
       (ascii ''Casa mesa, casa; Prazo mesa prazo3 para lua'') 2) \<and>
   length (extract_keywords demo_services demo_word_char
       (ascii ''Casa mesa, casa; Prazo mesa prazo3 para lua'') 2) = 2"
proof -
  have f: "filtered_words demo_services demo_word_char
       (ascii ''Casa mesa, casa; Prazo mesa prazo3 para lua'') =
     [ascii ''casa'', ascii ''mesa'', ascii ''casa'', ascii ''prazo'', ascii ''mesa'']"
    by (simp add: kw_defs)
  have e: "extract_keywords demo_services demo_word_char
       (ascii ''Casa mesa, casa; Prazo mesa prazo3 para lua'') 2 =
     [ascii ''casa'', ascii ''mesa'']"
    by (simp add: kw_defs)
  have d: "distinct (extract_keywords demo_services demo_word_char
       (ascii ''Casa mesa, casa; Prazo mesa prazo3 para lua'') 2)"
    using keywords_top_k [of demo_services demo_word_char
        "ascii ''Casa mesa, casa; Prazo mesa prazo3 para lua''" 2]
    by blast
  from f e d show ?thesis
    by simp
qed

section \<open>The decoder on concrete inputs\<close>

text \<open>
  Sequences of one to four bytes decode to their code points; an invalid lead byte, an
  overlong form, a surrogate, a code point above U+10FFFF and a truncated sequence are
  rejected by the strict decoder and skipped by the lenient one.
\<close>

lemma utf8_decode_examples:
  "utf8_decode Strict [0x41, 0xC3, 0xA9, 0xE2, 0x82, 0xAC, 0xF0, 0x9F, 0x98, 0x80] =
     Inr [65, 233, 8364, 128512]"
  "isl (utf8_decode Strict [0xFF])"
  "isl (utf8_decode Strict [0xC0, 0x80])"
  "isl (utf8_decode Strict [0xE0, 0x80, 0x80])"
  "isl (utf8_decode Strict [0xED, 0xA0, 0x80])"
  "isl (utf8_decode Strict [0xF4, 0x90, 0x80, 0x80])"
  "isl (utf8_decode Strict [0xE2, 0x82])"
  "utf8_decode Strict [0xF4, 0x8F, 0xBF, 0xBF] = Inr [1114111]"
  "utf8_decode Ignore [0x41, 0xFF, 0xE2, 0x82, 0x42, 0xC3] = Inr [65, 66]"
  by (simp_all add: seq_len_def second_ok_def is_cont_def)

end
